theory Spec2Isabelle
  imports Complex_Main "HOL-Library.Option_ord"
begin

section \<open>Number values\<close>

text \<open>
  Every numeric field of the program is a JavaScript Number, an IEEE-754 binary64 value.
  A finite Number is modelled by the rational it denotes, and each arithmetic operation
  returns the exact result rounded to the nearest binary64 value, ties to even, with the
  gradual underflow of the format (the smallest spacing is \<open>2 ^ -1074\<close>). Infinity and NaN
  are not values of the model: an operation whose result would overflow is outside it.
\<close>

fun bit_length :: "int \<Rightarrow> nat" where
  "bit_length n = (if n \<le> 0 then 0 else Suc (bit_length (n div 2)))"

declare bit_length.simps [simp del]

definition round_half_even :: "rat \<Rightarrow> int" where
  "round_half_even q =
     (let f = \<lfloor>q\<rfloor>; r = q - of_int f
      in if r < 1 / 2 then f else if 1 / 2 < r then f + 1 else if even f then f else f + 1)"

definition min_exp :: nat where
  "min_exp = 1074"

text \<open>
  \<open>quantize y\<close> rounds a non-negative \<open>y\<close>, counted in units of \<open>2 ^ -1074\<close>, to 53
  significant bits: \<open>k\<close> is the number of low bits that do not fit.
\<close>

definition quantize :: "rat \<Rightarrow> rat" where
  "quantize y =
     (let k = bit_length \<lfloor>y\<rfloor> - 53
      in of_int (round_half_even (y / 2 ^ k)) * 2 ^ k)"

definition binary64 :: "rat \<Rightarrow> rat" where
  "binary64 x =
     (if x < 0 then - (quantize (- x * 2 ^ min_exp) / 2 ^ min_exp)
      else quantize (x * 2 ^ min_exp) / 2 ^ min_exp)"

definition is_binary64 :: "rat \<Rightarrow> bool" where
  "is_binary64 z \<longleftrightarrow>
     (\<exists>N k. \<bar>z\<bar> = of_int N * 2 ^ k / 2 ^ min_exp \<and> 0 \<le> N \<and> N \<le> 2 ^ 53)"

definition num_add :: "rat \<Rightarrow> rat \<Rightarrow> rat" where
  "num_add a b = binary64 (a + b)"

definition num_sub :: "rat \<Rightarrow> rat \<Rightarrow> rat" where
  "num_sub a b = binary64 (a - b)"

definition num_mul :: "rat \<Rightarrow> rat \<Rightarrow> rat" where
  "num_mul a b = binary64 (a * b)"

definition num_div :: "rat \<Rightarrow> rat \<Rightarrow> rat" where
  "num_div a b = binary64 (a / b)"

text \<open>\<open>x || 0\<close>, \<open>x ?? 0\<close> and \<open>$ifNull: [x, 0]\<close> on a finite Number or a missing value.\<close>

definition or_zero :: "rat option \<Rightarrow> rat" where
  "or_zero x = (case x of None \<Rightarrow> 0 | Some v \<Rightarrow> v)"

section \<open>Data model (server.js, the Mongoose schemas)\<close>

text \<open>
  Only the fields that the operations below read or write are kept; free-text fields
  (names, phone numbers, symptoms, service-centre details) are left out. \<open>None\<close> is a
  field that is \<open>undefined\<close> or \<open>null\<close>. Dates are milliseconds since the epoch.
\<close>

record installment =
  inst_status :: string

record payment =
  pay_method :: "string option"
  schedule :: "installment list"

record device =
  serial :: string
  deviceValue :: "rat option"

datatype approval_status = ApprovalPending | Approved | Rejected

datatype claim_flag = ClaimNormal | ClaimPending | ClaimCompleted

record warranty =
  wid :: nat
  policyNumber :: nat
  memberId :: "string option"
  devicePrice :: "rat option"
  device :: "device option"
  installmentsPaid :: "rat option"
  usedCoverage :: "rat option"
  payment :: "payment option"
  approvalStatus :: approval_status
  approver :: "string option"
  approvalDate :: "int option"
  rejectReason :: "string option"
  rejectBy :: "string option"
  rejectDate :: "int option"
  claimStatus :: claim_flag

text \<open>
  The two values of a claim's \<open>status\<close> are Thai strings in the source: awaiting intake
  (the schema default) and device received.
\<close>

datatype claim_status = AwaitingIntake | DeviceReceived

text \<open>
  The title of an update: the text sent with a progress update, or the closing text that
  the completion handler composes (a fixed prefix, then the pickup branch or the delivery
  notice, or nothing).
\<close>

datatype update_title = Title string | ClosePickup string | CloseDelivery | CloseOnly

record update =
  step :: nat
  title :: update_title
  date :: "int option"
  cost :: rat
  images :: "string list"
  evidenceImages :: "string list"

record claim =
  cid :: nat
  claimId :: nat
  warrantyId :: "nat option"
  claimDate :: "int option"
  createdAt :: "int option"
  returnMethod :: "string option"
  pickupBranch :: "string option"
  deliveryAddressType :: "string option"
  deliveryAddressDetail :: "string option"
  status :: claim_status
  totalCost :: "rat option"
  completedReturnMethod :: "string option"
  completedReturnBranch :: "string option"
  completedDeliveryAddressType :: "string option"
  completedDeliveryAddressDetail :: "string option"
  pickupDate :: "int option"
  updates :: "update list"

text \<open>The two collections, in insertion order; \<open>wid\<close> and \<open>cid\<close> are the \<open>_id\<close> keys.\<close>

record db =
  warranties :: "warranty list"
  claims :: "claim list"

datatype 'a response = Http200 'a | Http201 'a | Http400 | Http404

section \<open>Coverage calculator (server.js 122-139)\<close>

definition basePrice :: "warranty \<Rightarrow> rat" where
  "basePrice w =
     (case devicePrice w of
        Some p \<Rightarrow> p
      | None \<Rightarrow>
          (case device w of
             None \<Rightarrow> 0
           | Some d \<Rightarrow> (case deviceValue d of Some v \<Rightarrow> v | None \<Rightarrow> 0)))"

definition maxLimit :: "warranty \<Rightarrow> int" where
  "maxLimit w = \<lfloor>num_mul (basePrice w) (binary64 (7 / 10))\<rfloor>"

definition currentLimit :: "warranty \<Rightarrow> int" where
  "currentLimit w =
     (let maxLimit = of_int (maxLimit w);
          paid = (case installmentsPaid w of None \<Rightarrow> 1 | Some p \<Rightarrow> p)
      in if 3 \<le> paid then \<lfloor>num_mul maxLimit 1\<rfloor>
         else if paid = 2 then \<lfloor>num_mul maxLimit (binary64 (3 / 10))\<rfloor>
         else \<lfloor>num_mul maxLimit (binary64 (1 / 10))\<rfloor>)"

definition remainingLimit :: "warranty \<Rightarrow> rat" where
  "remainingLimit w =
     (let used = or_zero (usedCoverage w);
          current = of_int (currentLimit w)
      in num_sub current used)"

section \<open>Warranty operations\<close>

text \<open>
  \<open>Model.findById\<close> and \<open>Model.findByIdAndUpdate\<close>. An update document leaves a field
  whose value is \<open>undefined\<close> as it was (\<open>set_field\<close>).
\<close>

definition find_warranty :: "warranty list \<Rightarrow> nat \<Rightarrow> warranty option" where
  "find_warranty ws i = find (\<lambda>w. wid w = i) ws"

definition update_warranty ::
  "nat option \<Rightarrow> (warranty \<Rightarrow> warranty) \<Rightarrow> warranty list \<Rightarrow> warranty list" where
  "update_warranty i f ws =
     (case i of None \<Rightarrow> ws | Some k \<Rightarrow> map (\<lambda>w. if wid w = k then f w else w) ws)"

definition set_field :: "'a option \<Rightarrow> 'a option \<Rightarrow> 'a option" where
  "set_field new old = (case new of None \<Rightarrow> old | Some v \<Rightarrow> Some v)"

text \<open>
  The count that both the create handler (625-636) and the payment handler compute:
  the number of schedule entries with status Paid, clamped to 0..3, for the payment
  method Installment, and 3 otherwise.
\<close>

definition calc_installmentsPaid :: "payment option \<Rightarrow> rat" where
  "calc_installmentsPaid p =
     (case p of
        None \<Rightarrow> 3
      | Some pm \<Rightarrow>
          if pay_method pm = Some ''Installment''
          then (let paidCount = length (filter (\<lambda>s. inst_status s = ''Paid'') (schedule pm))
                in of_nat (min 3 (max 0 paidCount)))
          else 3)"

text \<open>
  A field of a JSON request body is absent, null or a value: written to a document, null
  is stored as a missing value and an absent field leaves what is stored. The body of
  POST /api/warranties and PUT /api/warranties/:id carries the fields of the model; the
  policy number and the two enum fields are absent or a value of their type. \<open>draw k\<close> is
  the \<open>k\<close>-th value of \<open>Math.floor(1000000 + Math.random() * 9000000)\<close>; the policy number
  is the decimal string of that number.
\<close>

datatype 'a json_field = Absent | Null | Value 'a

definition write_field :: "'a json_field \<Rightarrow> 'a option \<Rightarrow> 'a option" where
  "write_field new old = (case new of Absent \<Rightarrow> old | Null \<Rightarrow> None | Value v \<Rightarrow> Some v)"

definition write_value :: "'a option \<Rightarrow> 'a \<Rightarrow> 'a" where
  "write_value new old = (case new of None \<Rightarrow> old | Some v \<Rightarrow> v)"

record warranty_body =
  b_policyNumber :: "nat option"
  b_memberId :: "string json_field"
  b_devicePrice :: "rat json_field"
  b_device :: "device json_field"
  b_installmentsPaid :: "rat json_field"
  b_usedCoverage :: "rat json_field"
  b_payment :: "payment json_field"
  b_approvalStatus :: "approval_status option"
  b_approver :: "string json_field"
  b_approvalDate :: "int json_field"
  b_rejectReason :: "string json_field"
  b_rejectBy :: "string json_field"
  b_rejectDate :: "int json_field"
  b_claimStatus :: "claim_flag option"

partial_function (option) gen_policyNumber ::
  "(nat \<Rightarrow> nat) \<Rightarrow> warranty list \<Rightarrow> nat \<Rightarrow> nat option" where
  "gen_policyNumber draw ws k =
     (if list_ex (\<lambda>w. policyNumber w = draw k) ws
      then gen_policyNumber draw ws (Suc k)
      else Some (draw k))"

text \<open>
  POST /api/warranties (603-654). \<open>oid\<close> is the \<open>_id\<close> of the new document. The document is
  built from the body, with the generated policy number and the approval status pending
  in place of the body's; the schema defaults fill \<open>installmentsPaid\<close> (1), \<open>usedCoverage\<close> (0)
  and \<open>claimStatus\<close> (normal) where the body has no such field. A body whose \<open>device\<close> is
  absent or null throws at \<open>device.serial\<close>, which the handler answers with 400, as it does
  a save that fails on the unique \<open>_id\<close>.
\<close>

definition create_warranty ::
  "(nat \<Rightarrow> nat) \<Rightarrow> nat \<Rightarrow> warranty_body \<Rightarrow> db \<Rightarrow> (warranty response \<times> db) option" where
  "create_warranty draw oid body s =
     (case gen_policyNumber draw (warranties s) 0 of
        None \<Rightarrow> None
      | Some pn \<Rightarrow>
          Some
            (case b_device body of
               Absent \<Rightarrow> (Http400, s)
             | Null \<Rightarrow> (Http400, s)
             | Value dev \<Rightarrow>
                 if list_ex (\<lambda>w. case device w of None \<Rightarrow> False | Some d \<Rightarrow> serial d = serial dev)
                      (warranties s)
                 then (Http400, s)
                 else
                   (let newWarranty =
                          \<lparr>wid = oid, policyNumber = pn,
                           memberId = write_field (b_memberId body) None,
                           devicePrice = write_field (b_devicePrice body) None,
                           device = Some dev,
                           installmentsPaid = write_field (b_installmentsPaid body) (Some 1),
                           usedCoverage = write_field (b_usedCoverage body) (Some 0),
                           payment = write_field (b_payment body) None,
                           approvalStatus = ApprovalPending,
                           approver = write_field (b_approver body) None,
                           approvalDate = write_field (b_approvalDate body) None,
                           rejectReason = write_field (b_rejectReason body) None,
                           rejectBy = write_field (b_rejectBy body) None,
                           rejectDate = write_field (b_rejectDate body) None,
                           claimStatus = write_value (b_claimStatus body) ClaimNormal\<rparr>;
                        saved = newWarranty
                          \<lparr>installmentsPaid := Some (calc_installmentsPaid (payment newWarranty))\<rparr>
                    in if list_ex (\<lambda>w. wid w = oid) (warranties s) then (Http400, s)
                       else (Http201 saved, s\<lparr>warranties := warranties s @ [saved]\<rparr>))))"

text \<open>
  PUT /api/warranties/:id (977-993): \<open>memberId\<close> is taken out of the body and every other
  field of the body goes into the update as it is. An update that would give two warranties
  the same policy number fails on the unique index and is answered with 400.
\<close>

definition put_warranty :: "nat \<Rightarrow> warranty_body \<Rightarrow> db \<Rightarrow> warranty response \<times> db" where
  "put_warranty i body s =
     (let updateData = (\<lambda>w. w
            \<lparr>policyNumber := write_value (b_policyNumber body) (policyNumber w),
             devicePrice := write_field (b_devicePrice body) (devicePrice w),
             device := write_field (b_device body) (device w),
             installmentsPaid := write_field (b_installmentsPaid body) (installmentsPaid w),
             usedCoverage := write_field (b_usedCoverage body) (usedCoverage w),
             payment := write_field (b_payment body) (payment w),
             approvalStatus := write_value (b_approvalStatus body) (approvalStatus w),
             approver := write_field (b_approver body) (approver w),
             approvalDate := write_field (b_approvalDate body) (approvalDate w),
             rejectReason := write_field (b_rejectReason body) (rejectReason w),
             rejectBy := write_field (b_rejectBy body) (rejectBy w),
             rejectDate := write_field (b_rejectDate body) (rejectDate w),
             claimStatus := write_value (b_claimStatus body) (claimStatus w)\<rparr>)
      in case find_warranty (warranties s) i of
           None \<Rightarrow> (Http404, s)
         | Some w \<Rightarrow>
             if list_ex (\<lambda>x. wid x \<noteq> i \<and> Some (policyNumber x) = b_policyNumber body)
                  (warranties s)
             then (Http400, s)
             else (Http200 (updateData w),
                   s\<lparr>warranties := update_warranty (Some i) updateData (warranties s)\<rparr>))"

text \<open>PUT /api/warranties/:id/approve (765-782) and /reject (785-803).\<close>

definition approve :: "nat \<Rightarrow> string option \<Rightarrow> int \<Rightarrow> db \<Rightarrow> warranty response \<times> db" where
  "approve i by_whom now s =
     (let upd = (\<lambda>w. w
            \<lparr>approvalStatus := Approved,
             approver := set_field by_whom (approver w),
             approvalDate := Some now\<rparr>)
      in case find_warranty (warranties s) i of
           None \<Rightarrow> (Http404, s)
         | Some w \<Rightarrow>
             (Http200 (upd w), s\<lparr>warranties := update_warranty (Some i) upd (warranties s)\<rparr>))"

definition reject ::
  "nat \<Rightarrow> string option \<Rightarrow> string option \<Rightarrow> int \<Rightarrow> db \<Rightarrow> warranty response \<times> db" where
  "reject i reason by_whom now s =
     (let upd = (\<lambda>w. w
            \<lparr>approvalStatus := Rejected,
             rejectReason := set_field reason (rejectReason w),
             rejectBy := set_field by_whom (rejectBy w),
             rejectDate := Some now\<rparr>)
      in case find_warranty (warranties s) i of
           None \<Rightarrow> (Http404, s)
         | Some w \<Rightarrow>
             (Http200 (upd w), s\<lparr>warranties := update_warranty (Some i) upd (warranties s)\<rparr>))"

section \<open>Claim operations\<close>

definition find_claim :: "claim list \<Rightarrow> nat \<Rightarrow> claim option" where
  "find_claim cs i = find (\<lambda>c. cid c = i) cs"

definition save_claim :: "claim \<Rightarrow> claim list \<Rightarrow> claim list" where
  "save_claim c cs = map (\<lambda>d. if cid d = cid c then c else d) cs"

definition valid_enum :: "string list \<Rightarrow> string option \<Rightarrow> bool" where
  "valid_enum vs v = (case v of None \<Rightarrow> True | Some x \<Rightarrow> x \<in> set vs)"

text \<open>The enum validators of the claim schema, run by \<open>save\<close>.\<close>

definition valid_claim :: "claim \<Rightarrow> bool" where
  "valid_claim c \<longleftrightarrow>
     valid_enum [''pickup'', ''delivery''] (returnMethod c) \<and>
     valid_enum [''card'', ''memberShipping'', ''new'', ''original''] (deliveryAddressType c) \<and>
     valid_enum [''pickup'', ''delivery''] (completedReturnMethod c) \<and>
     valid_enum [''card'', ''memberShipping'', ''new'', ''original'']
       (completedDeliveryAddressType c)"

record claim_req =
  r_warrantyId :: "nat option"
  r_returnMethod :: "string option"
  r_pickupBranch :: "string option"
  r_deliveryAddressType :: "string option"
  r_deliveryAddressDetail :: "string option"

text \<open>
  The claim id is \<open>SML\<close> followed by six digits; \<open>draw k\<close> is the \<open>k\<close>-th value of
  \<open>Math.floor(100000 + Math.random() * 900000)\<close>, and the loop runs until a draw is not
  the id of a stored claim.
\<close>

partial_function (option) gen_claimId ::
  "(nat \<Rightarrow> nat) \<Rightarrow> claim list \<Rightarrow> nat \<Rightarrow> nat option" where
  "gen_claimId draw cs k =
     (if list_ex (\<lambda>c. claimId c = draw k) cs
      then gen_claimId draw cs (Suc k)
      else Some (draw k))"

text \<open>POST /api/claims (1156-1222).\<close>

definition create_claim ::
  "(nat \<Rightarrow> nat) \<Rightarrow> nat \<Rightarrow> int \<Rightarrow> claim_req \<Rightarrow> db \<Rightarrow> (claim response \<times> db) option" where
  "create_claim draw oid now req s =
     (case gen_claimId draw (claims s) 0 of
        None \<Rightarrow> None
      | Some newId \<Rightarrow>
          Some
            (let newClaim =
                   \<lparr>cid = oid, claimId = newId, warrantyId = r_warrantyId req,
                    claimDate = Some now, createdAt = Some now,
                    returnMethod = r_returnMethod req,
                    pickupBranch =
                      (if r_returnMethod req = Some ''pickup'' then r_pickupBranch req
                       else Some ''''),
                    deliveryAddressType =
                      (if r_returnMethod req = Some ''delivery'' then r_deliveryAddressType req
                       else None),
                    deliveryAddressDetail =
                      (if r_returnMethod req = Some ''delivery''
                       then r_deliveryAddressDetail req else Some ''''),
                    status = AwaitingIntake, totalCost = Some 0,
                    completedReturnMethod = None, completedReturnBranch = None,
                    completedDeliveryAddressType = None,
                    completedDeliveryAddressDetail = None,
                    pickupDate = None, updates = []\<rparr>
             in if \<not> valid_claim newClaim \<or> list_ex (\<lambda>c. cid c = oid) (claims s)
                then (Http400, s)
                else (Http201 newClaim,
                      s\<lparr>claims := claims s @ [newClaim],
                        warranties :=
                          update_warranty (r_warrantyId req)
                            (\<lambda>w. w\<lparr>claimStatus := ClaimPending\<rparr>) (warranties s)\<rparr>)))"

text \<open>
  The Coverage Reconciler (1387-1399): the sum of \<open>totalCost\<close> over the stored claims of
  the warranty, written to its \<open>usedCoverage\<close>. The sum adds the Numbers in collection
  order, as the \<open>reduce\<close> of the tracking handler (1491) does.
\<close>

definition claims_total :: "nat \<Rightarrow> claim list \<Rightarrow> rat" where
  "claims_total w cs =
     foldl num_add 0 (map (\<lambda>c. or_zero (totalCost c)) (filter (\<lambda>c. warrantyId c = Some w) cs))"

definition sync_usedCoverage :: "claim \<Rightarrow> db \<Rightarrow> db" where
  "sync_usedCoverage c s =
     (case warrantyId c of
        None \<Rightarrow> s
      | Some w \<Rightarrow>
          (let totalUsed = claims_total w (claims s)
           in s\<lparr>warranties :=
                  update_warranty (Some w) (\<lambda>x. x\<lparr>usedCoverage := Some totalUsed\<rparr>)
                    (warranties s)\<rparr>))"

text \<open>
  POST /api/claims/:id/updates (1348-1407). \<open>q_cost\<close> is the value of
  \<open>parseFloat(req.body.cost)\<close>, \<open>None\<close> when that is NaN.
\<close>

record update_req =
  q_title :: "string option"
  q_cost :: "rat option"
  q_images :: "string list"
  q_evidenceImages :: "string list"

definition add_update :: "int \<Rightarrow> nat \<Rightarrow> update_req \<Rightarrow> db \<Rightarrow> claim response \<times> db" where
  "add_update now i req s =
     (case find_claim (claims s) i of
        None \<Rightarrow> (Http404, s)
      | Some claim \<Rightarrow>
          (let cost = or_zero (q_cost req);
               nextStep = length (updates claim) + 2
           in if 0 < cost \<and> length (q_evidenceImages req) = 0 then (Http400, s)
              else
                (let saved = claim
                       \<lparr>updates := updates claim @
                          [\<lparr>step = nextStep,
                            title = Title (case q_title req of None \<Rightarrow> '''' | Some t \<Rightarrow> t),
                            date = Some now, cost = cost, images = q_images req,
                            evidenceImages = q_evidenceImages req\<rparr>],
                        totalCost := Some (num_add (or_zero (totalCost claim)) cost)\<rparr>
                 in if \<not> valid_claim saved then (Http400, s)
                    else (Http200 saved,
                          sync_usedCoverage saved (s\<lparr>claims := save_claim saved (claims s)\<rparr>)))))"

text \<open>POST /api/claims/:id/complete (1410-1470).\<close>

record complete_req =
  k_returnMethod :: "string option"
  k_pickupBranch :: "string option"
  k_deliveryAddressType :: "string option"
  k_deliveryAddressDetail :: "string option"
  k_images :: "string list"

definition complete_claim :: "int \<Rightarrow> nat \<Rightarrow> complete_req \<Rightarrow> db \<Rightarrow> claim response \<times> db" where
  "complete_claim now i req s =
     (case find_claim (claims s) i of
        None \<Rightarrow> (Http404, s)
      | Some claim \<Rightarrow>
          (let c1 = claim\<lparr>completedReturnMethod := k_returnMethod req\<rparr>;
               c2 = (if k_returnMethod req = Some ''pickup''
                     then c1\<lparr>completedReturnBranch := k_pickupBranch req\<rparr>
                     else if k_returnMethod req = Some ''delivery''
                     then c1\<lparr>completedDeliveryAddressType := k_deliveryAddressType req,
                            completedDeliveryAddressDetail := k_deliveryAddressDetail req\<rparr>
                     else c1);
               closing = (if k_returnMethod req = Some ''pickup''
                     then ClosePickup (case k_pickupBranch req of None \<Rightarrow> '''' | Some b \<Rightarrow> b)
                     else if k_returnMethod req = Some ''delivery'' then CloseDelivery
                     else CloseOnly);
               nextStep = length (updates claim) + 2;
               saved = c2
                 \<lparr>status := DeviceReceived, pickupDate := Some now,
                  updates := updates c2 @
                    [\<lparr>step = nextStep, title = closing, date = Some now, cost = 0,
                      images = k_images req, evidenceImages = []\<rparr>]\<rparr>
           in if \<not> valid_claim saved then (Http400, s)
              else (Http200 saved,
                    s\<lparr>claims := save_claim saved (claims s),
                      warranties :=
                        update_warranty (warrantyId saved)
                          (\<lambda>w. w\<lparr>claimStatus := ClaimNormal\<rparr>) (warranties s)\<rparr>)))"

text \<open>
  GET /api/claims/pending (1264-1316). \<open>matches\<close> stands for the search and date
  conditions that \<open>buildClaimFilterMatch\<close> adds to the status condition.
\<close>

definition MS_PER_DAY :: rat where
  "MS_PER_DAY = num_mul (num_mul (num_mul 24 60) 60) 1000"

record overdue =
  isOverdue :: bool
  daysOverdue :: int

definition lastUpdateTime :: "claim \<Rightarrow> int option" where
  "lastUpdateTime c =
     (let since_intake = (case claimDate c of Some d \<Rightarrow> Some d | None \<Rightarrow> createdAt c)
      in if 0 < length (updates c)
         then (case date (last (updates c)) of Some d \<Rightarrow> Some d | None \<Rightarrow> since_intake)
         else since_intake)"

definition daysSinceUpdate :: "int \<Rightarrow> claim \<Rightarrow> int" where
  "daysSinceUpdate now c =
     (case lastUpdateTime c of
        None \<Rightarrow> 0
      | Some t \<Rightarrow> \<lfloor>num_div (num_sub (of_int now) (of_int t)) MS_PER_DAY\<rfloor>)"

definition enrich :: "int \<Rightarrow> claim \<Rightarrow> claim \<times> overdue" where
  "enrich now c =
     (let days = daysSinceUpdate now c;
          late = (5 \<le> days)
      in (c, \<lparr>isOverdue = late, daysOverdue = (if late then days else 0)\<rparr>))"

definition pending_claims :: "(claim \<Rightarrow> bool) \<Rightarrow> int \<Rightarrow> db \<Rightarrow> (claim \<times> overdue) list" where
  "pending_claims matches now s =
     map (enrich now)
       (rev (sort_key createdAt
          (filter (\<lambda>c. status c = AwaitingIntake \<and> matches c) (claims s))))"

text \<open>A run of the claim workflow: each operation with the time at which it is served.\<close>

datatype operation =
    Intake "nat \<Rightarrow> nat" nat claim_req
  | AddUpdate nat update_req
  | Complete nat complete_req

fun perform :: "int \<Rightarrow> operation \<Rightarrow> db \<Rightarrow> db option" where
  "perform now (Intake draw oid req) s = map_option snd (create_claim draw oid now req s)"
| "perform now (AddUpdate i req) s = Some (snd (add_update now i req s))"
| "perform now (Complete i req) s = Some (snd (complete_claim now i req s))"

fun run :: "(int \<times> operation) list \<Rightarrow> db \<Rightarrow> db option" where
  "run [] s = Some s"
| "run ((now, x) # xs) s = (case perform now x s of None \<Rightarrow> None | Some s' \<Rightarrow> run xs s')"

text \<open>
  The sum of \<open>updates[].cost\<close>, added from the first update on, and the equality that the
  cost ledger of a claim is to keep.
\<close>

definition sum_cost :: "update list \<Rightarrow> rat" where
  "sum_cost us = foldl num_add 0 (map cost us)"

definition cost_invariant :: "claim \<Rightarrow> bool" where
  "cost_invariant c \<longleftrightarrow> or_zero (totalCost c) = sum_cost (updates c)"

definition claim_total :: "db \<Rightarrow> nat \<Rightarrow> rat" where
  "claim_total s i = (case find_claim (claims s) i of None \<Rightarrow> 0 | Some c \<Rightarrow> or_zero (totalCost c))"

fun operation_cost :: "operation \<Rightarrow> rat" where
  "operation_cost (AddUpdate i req) = or_zero (q_cost req)"
| "operation_cost _ = 0"

section \<open>Menu permissions (permissions.js)\<close>

text \<open>
  \<open>menuPermissions\<close> is an object literal, so \<open>menuPermissions[key]\<close> finds the six own
  properties and, for any other key, what the object inherits from \<open>Object.prototype\<close>:
  a function or an object, which is truthy and has no \<open>includes\<close> method.
\<close>

definition menuPermissions :: "(string \<times> string list) list" where
  "menuPermissions =
     [(''nav-packages'', [''sales'', ''admin'']),
      (''nav-members'', [''sales'', ''admin'']),
      (''nav-shops'', [''sales'', ''admin'']),
      (''nav-claims'', [''sales'', ''admin'']),
      (''nav-tracking'', [''sales'', ''admin'']),
      (''nav-approval'', [''approver'', ''admin''])]"

definition object_prototype_names :: "string list" where
  "object_prototype_names =
     [''constructor'', ''__proto__'', ''hasOwnProperty'', ''isPrototypeOf'',
      ''propertyIsEnumerable'', ''toLocaleString'', ''toString'', ''valueOf'',
      ''__defineGetter__'', ''__defineSetter__'', ''__lookupGetter__'', ''__lookupSetter__'']"

datatype property = Roles "string list" | Inherited

definition get_property :: "string \<Rightarrow> property option" where
  "get_property key =
     (case map_of menuPermissions key of
        Some roles \<Rightarrow> Some (Roles roles)
      | None \<Rightarrow> if key \<in> set object_prototype_names then Some Inherited else None)"

datatype js_error = TypeError

text \<open>
  \<open>storage\<close> is \<open>localStorage.getItem\<close>; \<open>parse_role s\<close> is the \<open>role\<close> of
  \<open>JSON.parse(s)\<close> when the parse succeeds and the role is truthy, and \<open>None\<close> otherwise
  (a parse error is caught and logged). The empty string is falsy.
\<close>

definition hasPermission ::
  "(string \<Rightarrow> string option) \<Rightarrow> (string \<Rightarrow> string option) \<Rightarrow> string \<Rightarrow> js_error + bool" where
  "hasPermission storage parse_role permissionKey =
     (let session = storage ''smilecare_staff_session'';
          explicitRole = storage ''userRole'';
          fallback =
            (case explicitRole of
               None \<Rightarrow> ''sales''
             | Some r \<Rightarrow> if r = '''' then ''sales'' else r);
          userRole =
            (case session of
               None \<Rightarrow> fallback
             | Some j \<Rightarrow>
                 if (explicitRole = None \<or> explicitRole = Some '''') \<and> j \<noteq> ''''
                 then (case parse_role j of Some r \<Rightarrow> r | None \<Rightarrow> fallback)
                 else fallback)
      in case get_property permissionKey of
           None \<Rightarrow> Inr True
         | Some (Roles roles) \<Rightarrow> Inr (userRole \<in> set roles)
         | Some Inherited \<Rightarrow> Inl TypeError)"

section \<open>Example data\<close>

text \<open>The concrete warranties, claims and requests at which the theorems are evaluated.\<close>

definition example_warranty :: warranty where
  "example_warranty =
     \<lparr>wid = 1, policyNumber = 1234567, memberId = None, devicePrice = Some 10000,
      device = None, installmentsPaid = Some 2, usedCoverage = Some 500, payment = None,
      approvalStatus = Approved, approver = None, approvalDate = None, rejectReason = None,
      rejectBy = None, rejectDate = None, claimStatus = ClaimNormal\<rparr>"

definition priced_45000 :: warranty where
  "priced_45000 = example_warranty\<lparr>devicePrice := Some 45000, installmentsPaid := Some 3\<rparr>"

definition unpaid_warranty :: warranty where
  "unpaid_warranty =
     \<lparr>wid = 7, policyNumber = 7654321, memberId = Some ''SMC000001'', devicePrice = Some 20000,
      device = None, installmentsPaid = Some 0, usedCoverage = Some 0,
      payment = Some \<lparr>pay_method = Some ''Installment'',
        schedule = [\<lparr>inst_status = ''Pending''\<rparr>, \<lparr>inst_status = ''Pending''\<rparr>,
                    \<lparr>inst_status = ''Pending''\<rparr>]\<rparr>,
      approvalStatus = ApprovalPending, approver = None, approvalDate = None,
      rejectReason = None, rejectBy = None, rejectDate = None, claimStatus = ClaimNormal\<rparr>"

definition paid3_body :: warranty_body where
  "paid3_body =
     \<lparr>b_policyNumber = None, b_memberId = Absent, b_devicePrice = Absent, b_device = Absent,
      b_installmentsPaid = Value 3, b_usedCoverage = Absent, b_payment = Absent,
      b_approvalStatus = None, b_approver = Absent, b_approvalDate = Absent,
      b_rejectReason = Absent, b_rejectBy = Absent, b_rejectDate = Absent,
      b_claimStatus = None\<rparr>"

definition example_claim :: claim where
  "example_claim =
     \<lparr>cid = 1, claimId = 100001, warrantyId = Some 1, claimDate = Some 1000,
      createdAt = Some 1000, returnMethod = Some ''pickup'', pickupBranch = Some ''Main'',
      deliveryAddressType = None, deliveryAddressDetail = Some '''',
      status = AwaitingIntake, totalCost = Some 0, completedReturnMethod = None,
      completedReturnBranch = None, completedDeliveryAddressType = None,
      completedDeliveryAddressDetail = None, pickupDate = None, updates = []\<rparr>"

definition example_db :: db where
  "example_db = \<lparr>warranties = [example_warranty], claims = [example_claim]\<rparr>"

text \<open>
  Two warranties: the first with three claims (1, 2 and 3) and a stored \<open>usedCoverage\<close> of
  500, the second with one claim (4) of \<open>totalCost\<close> 50.
\<close>

definition other_warranty :: warranty where
  "other_warranty = example_warranty\<lparr>wid := 2, policyNumber := 2345678, usedCoverage := Some 50\<rparr>"

definition three_claims_db :: db where
  "three_claims_db =
     \<lparr>warranties = [example_warranty, other_warranty],
      claims = [example_claim,
                example_claim\<lparr>cid := 4, claimId := 100004, warrantyId := Some 2,
                  totalCost := Some 50\<rparr>,
                example_claim\<lparr>cid := 2, claimId := 100002\<rparr>,
                example_claim\<lparr>cid := 3, claimId := 100003\<rparr>]\<rparr>"

definition cost_request :: "rat \<Rightarrow> string list \<Rightarrow> update_req" where
  "cost_request c evidence =
     \<lparr>q_title = Some ''repair'', q_cost = Some c, q_images = [], q_evidenceImages = evidence\<rparr>"

definition example_intake :: claim_req where
  "example_intake =
     \<lparr>r_warrantyId = Some 1, r_returnMethod = Some ''pickup'', r_pickupBranch = Some ''Main'',
      r_deliveryAddressType = None, r_deliveryAddressDetail = None\<rparr>"

definition example_completion :: complete_req where
  "example_completion =
     \<lparr>k_returnMethod = Some ''pickup'', k_pickupBranch = Some ''Main'',
      k_deliveryAddressType = None, k_deliveryAddressDetail = None, k_images = []\<rparr>"

text \<open>The \<open>usedCoverage\<close> of every stored warranty after a run.\<close>

definition usedCoverage_after :: "(int \<times> operation) list \<Rightarrow> db \<Rightarrow> rat option list option" where
  "usedCoverage_after ops s = map_option (\<lambda>s'. map usedCoverage (warranties s')) (run ops s)"

definition repair100 :: "int \<times> operation" where
  "repair100 = (2000, AddUpdate 1 (cost_request 100 [''receipt1.jpg'']))"

definition repair200 :: "int \<times> operation" where
  "repair200 = (3000, AddUpdate 2 (cost_request 200 [''receipt2.jpg'']))"

definition inspect0 :: "int \<times> operation" where
  "inspect0 = (4000, AddUpdate 3 (cost_request 0 []))"

definition intake_db :: db where
  "intake_db = \<lparr>warranties = [example_warranty], claims = []\<rparr>"

definition pending_db :: db where
  "pending_db =
     \<lparr>warranties = [example_warranty\<lparr>claimStatus := ClaimPending\<rparr>], claims = [example_claim]\<rparr>"

definition stale_claim :: claim where
  "stale_claim =
     example_claim\<lparr>updates :=
       [\<lparr>step = 2, title = Title ''sent to service centre'', date = Some 86400000, cost = 0,
         images = [], evidenceImages = []\<rparr>]\<rparr>"

definition refund_request :: update_req where
  "refund_request =
     \<lparr>q_title = Some ''adjustment'', q_cost = Some (- 5), q_images = [],
      q_evidenceImages = []\<rparr>"

definition ledger_run :: "(int \<times> operation) list" where
  "ledger_run =
     [(1000, Intake (\<lambda>k. 100001) 1 example_intake),
      (2000, AddUpdate 1 (cost_request 100 [''receipt1.jpg''])),
      (5000, Complete 1 example_completion)]"

section \<open>Properties of the rounding\<close>

lemma bit_length_upper: "n < 2 ^ bit_length n"
proof (induction n rule: bit_length.induct)
  case (1 n)
  show ?case
  proof (cases "n \<le> 0")
    case True
    then show ?thesis by (simp add: bit_length.simps [of n])
  next
    case False
    then have "n div 2 < 2 ^ bit_length (n div 2)" using 1 by simp
    then have "n < 2 * 2 ^ bit_length (n div 2)" by presburger
    then show ?thesis using False by (simp add: bit_length.simps [of n])
  qed
qed

lemma bit_length_lower: "0 < n \<Longrightarrow> 2 ^ (bit_length n - 1) \<le> n"
proof (induction n rule: bit_length.induct)
  case (1 n)
  then have pos: "0 < n" by simp
  have eq: "bit_length n - 1 = bit_length (n div 2)"
    using pos by (simp add: bit_length.simps [of n])
  show ?case
  proof (cases "n div 2 \<le> 0")
    case True
    then have "bit_length (n div 2) = 0" by (simp add: bit_length.simps [of "n div 2"])
    then show ?thesis using pos eq by simp
  next
    case False
    then have h: "0 < n div 2" by simp
    then have ih: "2 ^ (bit_length (n div 2) - 1) \<le> n div 2" using 1 pos by simp
    have "0 < bit_length (n div 2)" using h by (simp add: bit_length.simps [of "n div 2"])
    then have "(2::int) ^ bit_length (n div 2) = 2 * 2 ^ (bit_length (n div 2) - 1)"
      by (cases "bit_length (n div 2)") simp_all
    also have "\<dots> \<le> 2 * (n div 2)" using ih by simp
    also have "\<dots> \<le> n" by presburger
    finally show ?thesis using eq by simp
  qed
qed

lemma bit_length_le_iff: "0 \<le> n \<Longrightarrow> bit_length n \<le> w \<longleftrightarrow> n < 2 ^ w"
proof
  assume "bit_length n \<le> w"
  then have "(2::int) ^ bit_length n \<le> 2 ^ w" by simp
  then show "n < 2 ^ w" using bit_length_upper [of n] by linarith
next
  assume a: "0 \<le> n" and b: "n < 2 ^ w"
  show "bit_length n \<le> w"
  proof (cases "n = 0")
    case True
    then show ?thesis by (simp add: bit_length.simps [of 0])
  next
    case False
    then have "0 < n" using a by simp
    then have "(2::int) ^ (bit_length n - 1) < 2 ^ w" using bit_length_lower [of n] b by linarith
    then have "bit_length n - 1 < w" by simp
    then show ?thesis by simp
  qed
qed

lemma bit_length_mono: "0 \<le> m \<Longrightarrow> m \<le> n \<Longrightarrow> bit_length m \<le> bit_length n"
  using bit_length_upper [of n] by (simp add: bit_length_le_iff)

lemma round_half_even_of_int [simp]: "round_half_even (of_int n) = n"
  by (simp add: round_half_even_def)

lemma round_half_even_lower: "\<lfloor>q\<rfloor> \<le> round_half_even q"
  by (simp add: round_half_even_def Let_def)

lemma round_half_even_upper: "round_half_even q \<le> \<lfloor>q\<rfloor> + 1"
  by (simp add: round_half_even_def Let_def)

lemma round_half_even_ge: "of_int n \<le> q \<Longrightarrow> n \<le> round_half_even q"
proof -
  assume "of_int n \<le> q"
  then have "n \<le> \<lfloor>q\<rfloor>" by (simp add: le_floor_iff)
  then show ?thesis using round_half_even_lower [of q] by linarith
qed

lemma round_half_even_le: "q \<le> of_int n \<Longrightarrow> round_half_even q \<le> n"
proof (cases "q = of_int n")
  case True
  then show ?thesis by simp
next
  case False
  assume "q \<le> of_int n"
  then have "q < of_int n" using False by simp
  then have "\<lfloor>q\<rfloor> < n" by (simp add: floor_less_iff)
  then show ?thesis using round_half_even_upper [of q] by linarith
qed

lemma round_half_even_mono: "p \<le> q \<Longrightarrow> round_half_even p \<le> round_half_even q"
proof (cases "\<lfloor>p\<rfloor> = \<lfloor>q\<rfloor>")
  case True
  assume "p \<le> q"
  then have "p - of_int \<lfloor>p\<rfloor> \<le> q - of_int \<lfloor>q\<rfloor>" using True by simp
  then show ?thesis using True by (auto simp add: round_half_even_def Let_def)
next
  case False
  assume "p \<le> q"
  then have "\<lfloor>p\<rfloor> \<le> \<lfloor>q\<rfloor>" by (rule floor_mono)
  then have "\<lfloor>p\<rfloor> + 1 \<le> \<lfloor>q\<rfloor>" using False by simp
  then show ?thesis
    using round_half_even_upper [of p] round_half_even_lower [of q] by linarith
qed

lemma quantize_below:
  assumes "0 \<le> y"
  shows "y < 2 ^ (53 + (bit_length \<lfloor>y\<rfloor> - 53))"
proof -
  have "bit_length \<lfloor>y\<rfloor> \<le> 53 + (bit_length \<lfloor>y\<rfloor> - 53)" by simp
  then have "\<lfloor>y\<rfloor> < 2 ^ (53 + (bit_length \<lfloor>y\<rfloor> - 53))"
    using assms by (simp add: bit_length_le_iff)
  then have "y < of_int (2 ^ (53 + (bit_length \<lfloor>y\<rfloor> - 53)))"
    by (simp only: floor_less_iff)
  then show ?thesis by simp
qed

lemma quantize_above:
  assumes "0 \<le> y" and "0 < bit_length \<lfloor>y\<rfloor> - 53"
  shows "2 ^ (52 + (bit_length \<lfloor>y\<rfloor> - 53)) \<le> y"
proof -
  have n: "0 \<le> \<lfloor>y\<rfloor>" using assms(1) by simp
  have "\<not> bit_length \<lfloor>y\<rfloor> \<le> 52 + (bit_length \<lfloor>y\<rfloor> - 53)" using assms(2) by simp
  then have "2 ^ (52 + (bit_length \<lfloor>y\<rfloor> - 53)) \<le> \<lfloor>y\<rfloor>"
    using n by (simp add: bit_length_le_iff)
  then have "of_int (2 ^ (52 + (bit_length \<lfloor>y\<rfloor> - 53))) \<le> y"
    by (simp only: le_floor_iff)
  then show ?thesis by simp
qed

lemma quantize_mono:
  assumes "0 \<le> x" and "x \<le> y"
  shows "quantize x \<le> quantize y"
proof -
  define k where "k = bit_length \<lfloor>x\<rfloor> - 53"
  define l where "l = bit_length \<lfloor>y\<rfloor> - 53"
  have y0: "0 \<le> y" using assms by simp
  have "bit_length \<lfloor>x\<rfloor> \<le> bit_length \<lfloor>y\<rfloor>"
    using assms by (intro bit_length_mono floor_mono) simp_all
  then have kl: "k \<le> l" by (simp add: k_def l_def)
  have qx: "quantize x = of_int (round_half_even (x / 2 ^ k)) * 2 ^ k"
    by (simp add: quantize_def k_def Let_def)
  have qy: "quantize y = of_int (round_half_even (y / 2 ^ l)) * 2 ^ l"
    by (simp add: quantize_def l_def Let_def)
  show ?thesis
  proof (cases "k = l")
    case True
    have "x / 2 ^ k \<le> y / 2 ^ k" using assms(2) by (simp add: divide_right_mono)
    then have "round_half_even (x / 2 ^ k) \<le> round_half_even (y / 2 ^ k)"
      by (rule round_half_even_mono)
    then show ?thesis using True by (simp add: qx qy)
  next
    case False
    then have lt: "k + 1 \<le> l" using kl by simp
    then have lpos: "0 < bit_length \<lfloor>y\<rfloor> - 53" by (simp add: l_def)
    have "x < 2 ^ (53 + k)" using quantize_below [OF assms(1)] by (simp add: k_def)
    then have "x / 2 ^ k \<le> of_int (2 ^ 53)"
      by (simp add: power_add pos_divide_le_eq)
    then have "round_half_even (x / 2 ^ k) \<le> 2 ^ 53" by (rule round_half_even_le)
    then have "(of_int (round_half_even (x / 2 ^ k)) :: rat) \<le> of_int (2 ^ 53)"
      by (simp only: of_int_le_iff)
    then have "quantize x \<le> 2 ^ 53 * 2 ^ k" by (simp add: qx)
    also have "\<dots> = 2 ^ (52 + (k + 1))" by (simp add: power_add)
    also have "\<dots> \<le> (2::rat) ^ (52 + l)" using lt by (intro power_increasing) simp_all
    finally have a: "quantize x \<le> 2 ^ (52 + l)" .
    have "2 ^ (52 + l) \<le> y" using quantize_above [OF y0 lpos] by (simp add: l_def)
    then have "of_int (2 ^ 52) \<le> y / 2 ^ l"
      by (simp add: power_add pos_le_divide_eq)
    then have "2 ^ 52 \<le> round_half_even (y / 2 ^ l)" by (rule round_half_even_ge)
    then have "(of_int (2 ^ 52) :: rat) \<le> of_int (round_half_even (y / 2 ^ l))"
      by (simp only: of_int_le_iff)
    then have "2 ^ 52 * 2 ^ l \<le> quantize y" by (simp add: qy)
    then have b: "2 ^ (52 + l) \<le> quantize y" by (simp add: power_add)
    show ?thesis using a b by (rule order_trans)
  qed
qed

lemma bit_length_power2: "bit_length (2 ^ m) = Suc m"
proof -
  have "bit_length (2 ^ m) \<le> Suc m" by (simp add: bit_length_le_iff)
  moreover have "\<not> bit_length (2 ^ m) \<le> m" by (simp add: bit_length_le_iff)
  ultimately show ?thesis by simp
qed

lemma quantize_exact:
  assumes "0 \<le> N" and "N \<le> 2 ^ 53"
  shows "quantize (of_int N * 2 ^ j) = of_int N * 2 ^ j"
proof -
  define k where "k = bit_length (N * 2 ^ j) - 53"
  have fl: "\<lfloor>(of_int N :: rat) * 2 ^ j\<rfloor> = N * 2 ^ j"
  proof -
    have "(of_int N :: rat) * 2 ^ j = of_int (N * 2 ^ j)" by simp
    then show ?thesis by (simp only: floor_of_int)
  qed
  have q: "quantize (of_int N * 2 ^ j) =
      of_int (round_half_even (of_int N * 2 ^ j / 2 ^ k)) * 2 ^ k"
    by (simp add: quantize_def Let_def fl k_def)
  show ?thesis
  proof (cases "N = 2 ^ 53")
    case True
    then have "N * 2 ^ j = 2 ^ (53 + j)" by (simp add: power_add)
    then have "bit_length (N * 2 ^ j) = Suc (53 + j)" by (simp only: bit_length_power2)
    then have k: "k = Suc j" by (simp add: k_def)
    have "(of_int N :: rat) * 2 ^ j / 2 ^ Suc j = of_int (2 ^ 52)"
      using True by simp
    then have r: "round_half_even (of_int N * 2 ^ j / 2 ^ Suc j) = 2 ^ 52"
      by (simp only: round_half_even_of_int)
    have "quantize (of_int N * 2 ^ j) = of_int (2 ^ 52) * 2 ^ Suc j"
      by (simp only: q [unfolded k] r)
    also have "\<dots> = of_int N * 2 ^ j" using True by simp
    finally show ?thesis .
  next
    case False
    then have "N < 2 ^ 53" using assms(2) by simp
    then have "N * 2 ^ j < 2 ^ 53 * 2 ^ j" by simp
    then have "N * 2 ^ j < 2 ^ (53 + j)" by (simp add: power_add)
    moreover have "0 \<le> N * 2 ^ j" using assms(1) by simp
    ultimately have "bit_length (N * 2 ^ j) \<le> 53 + j" by (simp add: bit_length_le_iff)
    then have kj: "k \<le> j" by (simp add: k_def)
    have "(of_int N :: rat) * 2 ^ j / 2 ^ k = of_int N * 2 ^ (j - k)"
      using kj by (simp add: power_diff)
    also have "\<dots> = of_int (N * 2 ^ (j - k))" by simp
    finally have "round_half_even (of_int N * 2 ^ j / 2 ^ k) = N * 2 ^ (j - k)"
      by (simp only: round_half_even_of_int)
    then have "quantize (of_int N * 2 ^ j) = of_int N * (2 ^ (j - k) * 2 ^ k)"
      by (simp add: q)
    also have "(2::rat) ^ (j - k) * 2 ^ k = 2 ^ j"
      using kj by (simp flip: power_add)
    finally show ?thesis .
  qed
qed

lemma quantize_range:
  assumes "0 \<le> y"
  shows "\<exists>N k. quantize y = of_int N * 2 ^ k \<and> 0 \<le> N \<and> N \<le> 2 ^ 53"
proof -
  define k where "k = bit_length \<lfloor>y\<rfloor> - 53"
  define N where "N = round_half_even (y / 2 ^ k)"
  have q: "quantize y = of_int N * 2 ^ k" by (simp add: quantize_def Let_def k_def N_def)
  have "of_int 0 \<le> y / 2 ^ k" using assms by simp
  then have lo: "0 \<le> N" unfolding N_def by (rule round_half_even_ge)
  have "y < 2 ^ (53 + k)" using quantize_below [OF assms] by (simp add: k_def)
  then have "y / 2 ^ k \<le> of_int (2 ^ 53)" by (simp add: power_add pos_divide_le_eq)
  then have hi: "N \<le> 2 ^ 53" unfolding N_def by (rule round_half_even_le)
  show ?thesis using q lo hi by blast
qed

lemma quantize_zero [simp]: "quantize 0 = 0"
  using round_half_even_of_int [of 0] by (simp add: quantize_def)

lemma quantize_nonneg: "0 \<le> y \<Longrightarrow> 0 \<le> quantize y"
  using quantize_mono [of 0 y] by simp

lemma binary64_zero [simp]: "binary64 0 = 0"
  by (simp add: binary64_def)

lemma binary64_minus: "binary64 (- x) = - binary64 x"
  by (cases "x = 0") (auto simp add: binary64_def)

lemma binary64_nonneg: "0 \<le> x \<Longrightarrow> 0 \<le> binary64 x"
  by (simp add: binary64_def quantize_nonneg)

lemma binary64_mono_nonneg:
  assumes "0 \<le> x" and "x \<le> y"
  shows "binary64 x \<le> binary64 y"
proof -
  have "quantize (x * 2 ^ min_exp) \<le> quantize (y * 2 ^ min_exp)"
    using assms by (intro quantize_mono) simp_all
  then show ?thesis using assms by (simp add: binary64_def divide_right_mono)
qed

lemma binary64_mono:
  assumes "x \<le> y"
  shows "binary64 x \<le> binary64 y"
proof (cases "0 \<le> x")
  case True
  then show ?thesis using assms by (rule binary64_mono_nonneg)
next
  case False
  then have x: "0 \<le> - x" by simp
  show ?thesis
  proof (cases "0 \<le> y")
    case True
    have "binary64 x = - binary64 (- x)" by (simp add: binary64_minus)
    then have "binary64 x \<le> 0" using binary64_nonneg [OF x] by simp
    then show ?thesis using binary64_nonneg [OF True] by simp
  next
    case False
    then have "0 \<le> - y" and "- y \<le> - x" using assms by simp_all
    then have "binary64 (- y) \<le> binary64 (- x)" by (rule binary64_mono_nonneg)
    then show ?thesis by (simp add: binary64_minus)
  qed
qed

lemma is_binary64_minus: "is_binary64 (- z) = is_binary64 z"
  by (simp add: is_binary64_def)

lemma is_binary64_binary64: "is_binary64 (binary64 x)"
proof -
  have nonneg: "is_binary64 (binary64 u)" if "0 \<le> u" for u
  proof -
    have "0 \<le> u * 2 ^ min_exp" using that by simp
    from quantize_range [OF this] obtain N k
      where "quantize (u * 2 ^ min_exp) = of_int N * 2 ^ k" "0 \<le> N" "N \<le> 2 ^ 53" by blast
    moreover have "\<bar>binary64 u\<bar> = binary64 u" using binary64_nonneg [OF that] by simp
    ultimately show ?thesis using that unfolding is_binary64_def binary64_def by auto
  qed
  show ?thesis
  proof (cases "0 \<le> x")
    case True
    then show ?thesis by (rule nonneg)
  next
    case False
    then have "is_binary64 (binary64 (- x))" by (intro nonneg) simp
    then show ?thesis by (simp add: binary64_minus is_binary64_minus)
  qed
qed

lemma binary64_exact:
  assumes "is_binary64 z"
  shows "binary64 z = z"
proof -
  have nonneg: "binary64 u = u" if "is_binary64 u" "0 \<le> u" for u
  proof -
    from that obtain N k
      where u: "u = of_int N * 2 ^ k / 2 ^ min_exp" and N: "0 \<le> N" "N \<le> 2 ^ 53"
      unfolding is_binary64_def by auto
    have "u * 2 ^ min_exp = of_int N * 2 ^ k" by (simp add: u)
    then have "quantize (u * 2 ^ min_exp) = of_int N * 2 ^ k"
      using quantize_exact [OF N, of k] by simp
    then show ?thesis using that(2) by (simp add: binary64_def u)
  qed
  show ?thesis
  proof (cases "0 \<le> z")
    case True
    with assms show ?thesis by (rule nonneg)
  next
    case False
    then have "binary64 (- z) = - z" using assms by (intro nonneg) (simp_all add: is_binary64_minus)
    then show ?thesis by (simp add: binary64_minus)
  qed
qed

lemma binary64_idem: "binary64 (binary64 x) = binary64 x"
  by (rule binary64_exact) (rule is_binary64_binary64)

lemma is_binary64_of_int:
  assumes "\<bar>n\<bar> \<le> 2 ^ 53"
  shows "is_binary64 (of_int n)"
proof -
  have "\<bar>of_int n :: rat\<bar> = of_int \<bar>n\<bar> * 2 ^ min_exp / 2 ^ min_exp" by simp
  then show ?thesis using assms unfolding is_binary64_def by (intro exI [of _ "\<bar>n\<bar>"] exI [of _ min_exp]) simp
qed


lemma binary64_eqI:
  assumes "0 \<le> x" and "2 ^ 52 \<le> x * 2 ^ a / 2 ^ b" and "x * 2 ^ a / 2 ^ b < 2 ^ 53"
    and "a \<le> b + min_exp"
  shows "binary64 x = of_int (round_half_even (x * 2 ^ a / 2 ^ b)) * 2 ^ b / 2 ^ a"
proof -
  define k where "k = b + min_exp - a"
  define y where "y = x * 2 ^ min_exp"
  have pw: "(2::rat) ^ a * 2 ^ k = 2 ^ b * 2 ^ min_exp"
    using assms(4) by (simp add: k_def flip: power_add)
  have sc: "x * 2 ^ a / 2 ^ b = y / 2 ^ k"
    using pw by (simp add: y_def frac_eq_eq algebra_simps)
  have y0: "0 \<le> y" using assms(1) by (simp add: y_def)
  have "of_int (2 ^ (52 + k)) \<le> y"
    using assms(2) by (simp add: sc power_add pos_le_divide_eq)
  then have lo: "2 ^ (52 + k) \<le> \<lfloor>y\<rfloor>" by (simp only: le_floor_iff)
  have "y < of_int (2 ^ (53 + k))"
    using assms(3) by (simp add: sc power_add pos_divide_less_eq)
  then have hi: "\<lfloor>y\<rfloor> < 2 ^ (53 + k)" by (simp only: floor_less_iff)
  have n0: "0 \<le> \<lfloor>y\<rfloor>" using y0 by simp
  have "bit_length \<lfloor>y\<rfloor> \<le> 53 + k" using hi n0 by (simp only: bit_length_le_iff)
  moreover have "\<not> bit_length \<lfloor>y\<rfloor> \<le> 52 + k" using lo n0 by (simp add: bit_length_le_iff)
  ultimately have "bit_length \<lfloor>y\<rfloor> - 53 = k" by simp
  then have "quantize y = of_int (round_half_even (y / 2 ^ k)) * 2 ^ k"
    by (simp add: quantize_def Let_def)
  then have "binary64 x = of_int (round_half_even (y / 2 ^ k)) * 2 ^ k / 2 ^ min_exp"
    using assms(1) by (simp add: binary64_def y_def)
  also have "\<dots> = of_int (round_half_even (y / 2 ^ k)) * (2 ^ k / 2 ^ min_exp)" by simp
  also have "(2::rat) ^ k / 2 ^ min_exp = 2 ^ b / 2 ^ a"
    using pw by (simp add: frac_eq_eq algebra_simps)
  finally show ?thesis by (simp add: sc)
qed

lemma floor_rat_numeral: "\<lfloor>numeral a / numeral b :: rat\<rfloor> = numeral a div numeral b"
  using floor_divide_of_int_eq [of "numeral a" "numeral b", where ?'a = rat] by simp

lemma binary64_of_int: "\<bar>n\<bar> \<le> 2 ^ 53 \<Longrightarrow> binary64 (of_int n) = of_int n"
  by (rule binary64_exact) (rule is_binary64_of_int)

lemma binary64_numeral [simp]:
  "numeral n \<le> (9007199254740992 :: int) \<Longrightarrow> binary64 (numeral n) = numeral n"
  using binary64_of_int [of "numeral n"] by simp

lemma binary64_one [simp]: "binary64 1 = 1"
  using binary64_of_int [of 1] by simp


lemma lit_070: "binary64 (7 / 10) = 3152519739159347 / 4503599627370496"
  using binary64_eqI [of "7 / 10" 53 0]
  by (simp add: round_half_even_def Let_def min_exp_def floor_rat_numeral)

lemma lit_030: "binary64 (3 / 10) = 5404319552844595 / 18014398509481984"
  using binary64_eqI [of "3 / 10" 54 0]
  by (simp add: round_half_even_def Let_def min_exp_def floor_rat_numeral)

lemma lit_010: "binary64 (1 / 10) = 3602879701896397 / 36028797018963968"
  using binary64_eqI [of "1 / 10" 56 0]
  by (simp add: round_half_even_def Let_def min_exp_def floor_rat_numeral)

lemma mul_10000_070: "num_mul 10000 (binary64 (7 / 10)) = 7000"
  using binary64_eqI [of "10000 * (3152519739159347 / 4503599627370496)" 40 0]
  by (simp add: num_mul_def lit_070 round_half_even_def Let_def min_exp_def floor_rat_numeral)

lemma mul_7000_030: "num_mul 7000 (binary64 (3 / 10)) = 2100"
  using binary64_eqI [of "7000 * (5404319552844595 / 18014398509481984)" 41 0]
  by (simp add: num_mul_def lit_030 round_half_even_def Let_def min_exp_def floor_rat_numeral)

text \<open>
  The literal \<open>0.70\<close> is the binary64 value nearest to 7/10, which lies below it, and the
  product with 90 rounds to \<open>62.99999999999999\<close>, the largest binary64 value below 63.
\<close>

lemma mul_90_070: "num_mul 90 (binary64 (7 / 10)) = 8866461766385663 / 140737488355328"
  using binary64_eqI [of "90 * (3152519739159347 / 4503599627370496)" 47 0]
  by (simp add: num_mul_def lit_070 round_half_even_def Let_def min_exp_def floor_rat_numeral)

section \<open>Coverage limits\<close>

lemma basePrice_installmentsPaid [simp]:
  "basePrice (w\<lparr>installmentsPaid := x\<rparr>) = basePrice w"
  by (simp add: basePrice_def split: option.splits)

lemma maxLimit_installmentsPaid [simp]:
  "maxLimit (w\<lparr>installmentsPaid := x\<rparr>) = maxLimit w"
  by (simp add: maxLimit_def)


lemma maxLimit_of_90:
  assumes "devicePrice w = Some 90"
  shows "maxLimit w = 62"
proof -
  have "basePrice w = 90" using assms by (simp add: basePrice_def)
  then show ?thesis by (simp add: maxLimit_def mul_90_070 floor_rat_numeral)
qed



lemma mul_45000_070: "num_mul 45000 (binary64 (7 / 10)) = 8658654068735999 / 274877906944"
  using binary64_eqI [of "45000 * (3152519739159347 / 4503599627370496)" 38 0]
  by (simp add: num_mul_def lit_070 round_half_even_def Let_def min_exp_def floor_rat_numeral)

lemma maxLimit_of_45000:
  assumes "devicePrice w = Some 45000"
  shows "maxLimit w = 31499"
proof -
  have "basePrice w = 45000" using assms by (simp add: basePrice_def)
  then show ?thesis by (simp add: maxLimit_def mul_45000_070 floor_rat_numeral)
qed

text \<open>
  The example of the specification: a device price of 10000 with two paid instalments has
  \<open>maxLimit\<close> 7000 and \<open>currentLimit\<close> 2100, and 1600 remain after 500 are used.
\<close>

lemma coverage_example:
  assumes "devicePrice w = Some 10000" and "installmentsPaid w = Some 2"
  shows "maxLimit w = 7000 \<and> currentLimit w = 2100 \<and>
         (usedCoverage w = Some 500 \<longrightarrow> remainingLimit w = 1600)"
proof -
  have m: "maxLimit w = 7000"
    by (simp add: maxLimit_def basePrice_def assms(1) mul_10000_070)
  have c: "currentLimit w = 2100"
    by (simp add: currentLimit_def m assms(2) mul_7000_030)
  have "remainingLimit w = 1600" if "usedCoverage w = Some 500"
    by (simp add: remainingLimit_def c that or_zero_def num_sub_def)
  then show ?thesis using m c by simp
qed

text \<open>
  C1. \<open>maxLimit\<close> is to be the floor of the device price times 0.70, and \<open>currentLimit\<close> at
  three paid instalments the floor of \<open>maxLimit\<close> times 1.0. For the device price 45000 that
  is 31500. The calculator forms the product as a Number: \<open>45000 * 0.70\<close> is
  \<open>31499.999999999996\<close>, and the floor of that is 31499, one less, for \<open>maxLimit\<close> and for
  \<open>currentLimit\<close>.
\<close>

theorem maxLimit_off_by_one:
  "devicePrice priced_45000 = Some 45000 \<and> installmentsPaid priced_45000 = Some 3 \<and>
   \<lfloor>(45000 :: rat) * (7 / 10)\<rfloor> = 31500 \<and>
   maxLimit priced_45000 = 31499 \<and> currentLimit priced_45000 = 31499"
proof -
  have p: "devicePrice priced_45000 = Some 45000"
    and i: "installmentsPaid priced_45000 = Some 3"
    by (simp_all add: priced_45000_def)
  have m: "maxLimit priced_45000 = 31499" using p by (rule maxLimit_of_45000)
  have c: "currentLimit priced_45000 = 31499"
    by (simp add: currentLimit_def m i num_mul_def)
  have d: "\<lfloor>(45000 :: rat) * (7 / 10)\<rfloor> = 31500" by simp
  show ?thesis using p i d m c by simp
qed



section \<open>Menu permissions\<close>

lemma hasPermission_unknown_key:
  assumes "map_of menuPermissions key = None" and "key \<notin> set object_prototype_names"
  shows "hasPermission storage parse_role key = Inr True"
  using assms by (simp add: hasPermission_def get_property_def Let_def)

text \<open>
  C10. A permission key that is not one of the six keys of the table should make
  \<open>hasPermission\<close> return true for every role. The key \<open>toString\<close> is not in the table, and
  the lookup finds the method that the table inherits, so the call ends in a TypeError.
\<close>

theorem hasPermission_inherited_key:
  "map_of menuPermissions ''toString'' = None \<and>
   hasPermission storage parse_role ''toString'' = Inl TypeError"
  by (simp add: hasPermission_def get_property_def Let_def menuPermissions_def
      object_prototype_names_def)

section \<open>Approval\<close>

lemma find_warranty_update:
  assumes "\<And>x. wid (f x) = wid x"
  shows "find_warranty (update_warranty (Some i) f ws) j =
         map_option (\<lambda>x. if wid x = i then f x else x) (find_warranty ws j)"
  using assms by (induction ws) (auto simp add: find_warranty_def update_warranty_def)

text \<open>
  C9 as stated fails: a warranty that is already approved is rejected by a later reject
  request, and the recorded decision changes.
\<close>

theorem decision_overwritten:
  "approvalStatus example_warranty = Approved \<and>
   map approvalStatus
     (warranties (snd (reject 1 (Some ''late payment'') (Some ''staff2'') 2000
        \<lparr>warranties = [example_warranty], claims = []\<rparr>))) = [Rejected]"
  by (simp add: reject_def find_warranty_def update_warranty_def example_warranty_def Let_def)

text \<open>
  C9, amended. Approve and Reject apply to a stored warranty in any approval status: each
  sets the status, stamps the actor identity of the request and the time of the request,
  and Reject stores the reason of the request as well; the stored warranty is the one
  returned.
\<close>

theorem approve_reject_stamp:
  assumes "find_warranty (warranties s) i = Some w"
  shows "approve i (Some a) now s =
           (Http200 (w\<lparr>approvalStatus := Approved, approver := Some a, approvalDate := Some now\<rparr>),
            snd (approve i (Some a) now s)) \<and>
         find_warranty (warranties (snd (approve i (Some a) now s))) i =
           Some (w\<lparr>approvalStatus := Approved, approver := Some a, approvalDate := Some now\<rparr>) \<and>
         reject i (Some r) (Some b) now s =
           (Http200 (w\<lparr>approvalStatus := Rejected, rejectReason := Some r, rejectBy := Some b,
                      rejectDate := Some now\<rparr>),
            snd (reject i (Some r) (Some b) now s)) \<and>
         find_warranty (warranties (snd (reject i (Some r) (Some b) now s))) i =
           Some (w\<lparr>approvalStatus := Rejected, rejectReason := Some r, rejectBy := Some b,
                   rejectDate := Some now\<rparr>)"
proof -
  have i: "wid w = i"
    using assms unfolding find_warranty_def by (auto dest: find_Some_iff [THEN iffD1])
  show ?thesis
    using assms i
    by (simp add: approve_def reject_def Let_def set_field_def find_warranty_update)
qed

theorem approve_reject_stamp_witness:
  "find_warranty (warranties (snd (approve 1 (Some ''manager'') 3000
      \<lparr>warranties = [example_warranty\<lparr>approvalStatus := Rejected\<rparr>], claims = []\<rparr>))) 1 =
     Some (example_warranty\<lparr>approvalStatus := Approved, approver := Some ''manager'',
       approvalDate := Some 3000\<rparr>)"
proof -
  have "find_warranty
      (warranties \<lparr>warranties = [example_warranty\<lparr>approvalStatus := Rejected\<rparr>], claims = []\<rparr>) 1 =
      Some (example_warranty\<lparr>approvalStatus := Rejected\<rparr>)"
    by (simp add: find_warranty_def example_warranty_def)
  from approve_reject_stamp [OF this, of "''manager''" 3000]
  show ?thesis by simp
qed

section \<open>The stored instalment count\<close>

lemma create_warranty_installmentsPaid:
  assumes "create_warranty draw oid body s = Some (Http201 w, s')"
  shows "installmentsPaid w = Some (calc_installmentsPaid (payment w)) \<and>
         payment w = write_field (b_payment body) None \<and>
         warranties s' = warranties s @ [w]"
  using assms
  by (auto simp add: create_warranty_def Let_def
      split: option.splits json_field.splits if_splits)

lemma put_warranty_installmentsPaid:
  assumes "find_warranty (warranties s) i = Some w" and "b_installmentsPaid body = Value v"
    and "b_policyNumber body = None"
  shows "\<exists>w'. find_warranty (warranties (snd (put_warranty i body s))) i = Some w' \<and>
           installmentsPaid w' = Some v"
proof -
  have "wid w = i"
    using assms(1) unfolding find_warranty_def by (auto dest: find_Some_iff [THEN iffD1])
  then show ?thesis
    using assms
    by (simp add: put_warranty_def Let_def find_warranty_update write_field_def
        list_ex_iff)
qed

text \<open>
  C5. The stored \<open>installmentsPaid\<close> should on every write path be the count derived from
  the payment schedule. The create handler stores that count; the update handler stores
  the value of the request body: a warranty on instalments with no paid entry, whose
  derived count is 0, is stored with 3 after a PUT whose body says 3.
\<close>

theorem put_warranty_stores_client_value:
  "calc_installmentsPaid (payment unpaid_warranty) = 0 \<and>
   map installmentsPaid
     (warranties (snd (put_warranty 7 paid3_body \<lparr>warranties = [unpaid_warranty], claims = []\<rparr>))) =
     [Some 3]"
  by (simp add: put_warranty_def find_warranty_def update_warranty_def unpaid_warranty_def
      paid3_body_def calc_installmentsPaid_def write_field_def write_value_def Let_def)

section \<open>Claim workflow\<close>

lemma find_claim_cid: "find_claim cs i = Some c \<Longrightarrow> cid c = i"
  unfolding find_claim_def by (auto dest: find_Some_iff [THEN iffD1])

lemma find_warranty_wid: "find_warranty ws i = Some w \<Longrightarrow> wid w = i"
  unfolding find_warranty_def by (auto dest: find_Some_iff [THEN iffD1])

lemma find_claim_save:
  "find_claim (save_claim c cs) j =
     map_option (\<lambda>d. if cid d = cid c then c else d) (find_claim cs j)"
  by (induction cs) (auto simp add: find_claim_def save_claim_def)

lemma find_claim_append_new:
  assumes "\<not> list_ex (\<lambda>d. cid d = cid c) cs"
  shows "find_claim (cs @ [c]) (cid c) = Some c"
  using assms by (induction cs) (auto simp add: find_claim_def)

lemma claims_sync [simp]: "claims (sync_usedCoverage c s) = claims s"
  by (simp add: sync_usedCoverage_def Let_def split: option.splits)

lemma warranties_sync:
  "warranties (sync_usedCoverage c s) =
     (case warrantyId c of
        None \<Rightarrow> warranties s
      | Some w \<Rightarrow>
          update_warranty (Some w) (\<lambda>x. x\<lparr>usedCoverage := Some (claims_total w (claims s))\<rparr>)
            (warranties s))"
  by (simp add: sync_usedCoverage_def Let_def split: option.splits)

text \<open>
  C2. A progress update whose cost is greater than 0 and that carries no evidence image
  is rejected and nothing is stored: the database after the request is the database before
  it, so the claim's updates and totalCost are what they were. The answer is 400 when the
  claim exists and 404 when it does not.
\<close>

theorem evidence_rule:
  assumes "0 < or_zero (q_cost req)" and "q_evidenceImages req = []"
  shows "snd (add_update now i req s) = s \<and>
         (find_claim (claims s) i = None \<longrightarrow> fst (add_update now i req s) = Http404) \<and>
         (find_claim (claims s) i \<noteq> None \<longrightarrow> fst (add_update now i req s) = Http400)"
  using assms by (auto simp add: add_update_def Let_def split: option.splits)

theorem evidence_rule_witness:
  "add_update 2000 1 (cost_request 5 []) example_db = (Http400, example_db) \<and>
   map (\<lambda>c. (length (updates c), totalCost c)) (claims example_db) = [(0, Some 0)]"
proof -
  have a: "0 < or_zero (q_cost (cost_request 5 []))"
    and b: "q_evidenceImages (cost_request 5 []) = []"
    by (simp_all add: cost_request_def or_zero_def)
  have c: "find_claim (claims example_db) 1 \<noteq> None"
    by (simp add: find_claim_def example_db_def example_claim_def)
  have d: "map (\<lambda>c. (length (updates c), totalCost c)) (claims example_db) = [(0, Some 0)]"
    by (simp add: example_db_def example_claim_def)
  from evidence_rule [OF a b, of 2000 1 example_db] c d show ?thesis
    by (simp add: prod_eq_iff)
qed

lemma add_update_Http200:
  assumes "add_update now i req s = (Http200 c, s')"
  obtains c0 where "find_claim (claims s) i = Some c0"
    and "updates c = updates c0 @
           [\<lparr>step = length (updates c0) + 2,
             title = Title (case q_title req of None \<Rightarrow> '''' | Some t \<Rightarrow> t),
             date = Some now, cost = or_zero (q_cost req), images = q_images req,
             evidenceImages = q_evidenceImages req\<rparr>]"
    and "totalCost c = Some (num_add (or_zero (totalCost c0)) (or_zero (q_cost req)))"
    and "cid c = i" and "warrantyId c = warrantyId c0"
    and "s' = sync_usedCoverage c (s\<lparr>claims := save_claim c (claims s)\<rparr>)"
  using assms
  by (auto simp add: add_update_def Let_def find_claim_cid split: option.splits if_splits)

text \<open>
  C3. After a progress update is stored, the reconciler writes to the owning warranty the
  sum of \<open>totalCost\<close> over the stored claims whose \<open>warrantyId\<close> is that warranty, the updated
  claim included and the claims of other warranties left out, whatever \<open>usedCoverage\<close> was
  before. In a collection that also holds a claim of another warranty, updates that bring
  the totals of the three claims of the first warranty to 100, 200 and 0 leave its
  \<open>usedCoverage\<close> at 300, and that of the other warranty at 50, in each of the six orders of
  the three updates.
\<close>

theorem reconcile_usedCoverage:
  "(add_update now i req s = (Http200 c, s') \<and> warrantyId c = Some w \<and>
      find_warranty (warranties s) w = Some x \<longrightarrow>
      claims s' = save_claim c (claims s) \<and>
      find_warranty (warranties s') w =
        Some (x\<lparr>usedCoverage :=
          Some (foldl num_add 0
            (map (\<lambda>d. or_zero (totalCost d))
               (filter (\<lambda>d. warrantyId d = Some w) (claims s'))))\<rparr>)) \<and>
   usedCoverage_after [repair100, repair200, inspect0] three_claims_db = Some [Some 300, Some 50] \<and>
   usedCoverage_after [repair100, inspect0, repair200] three_claims_db = Some [Some 300, Some 50] \<and>
   usedCoverage_after [repair200, repair100, inspect0] three_claims_db = Some [Some 300, Some 50] \<and>
   usedCoverage_after [repair200, inspect0, repair100] three_claims_db = Some [Some 300, Some 50] \<and>
   usedCoverage_after [inspect0, repair100, repair200] three_claims_db = Some [Some 300, Some 50] \<and>
   usedCoverage_after [inspect0, repair200, repair100] three_claims_db = Some [Some 300, Some 50]"
proof -
  have general: "claims s' = save_claim c (claims s) \<and>
      find_warranty (warranties s') w =
        Some (x\<lparr>usedCoverage :=
          Some (foldl num_add 0
            (map (\<lambda>d. or_zero (totalCost d))
               (filter (\<lambda>d. warrantyId d = Some w) (claims s'))))\<rparr>)"
    if ok: "add_update now i req s = (Http200 c, s')" and own: "warrantyId c = Some w"
      and x: "find_warranty (warranties s) w = Some x"
  proof -
    from ok obtain c0
      where s': "s' = sync_usedCoverage c (s\<lparr>claims := save_claim c (claims s)\<rparr>)"
      by (rule add_update_Http200)
    have "wid x = w" using x by (rule find_warranty_wid)
    then show ?thesis
      by (simp add: s' warranties_sync own find_warranty_update x claims_total_def)
  qed
  note ev = usedCoverage_after_def repair100_def repair200_def inspect0_def three_claims_db_def
    example_claim_def example_warranty_def other_warranty_def cost_request_def add_update_def
    find_claim_def save_claim_def sync_usedCoverage_def claims_total_def update_warranty_def
    valid_claim_def valid_enum_def or_zero_def num_add_def Let_def
  have e1: "usedCoverage_after [repair100, repair200, inspect0] three_claims_db =
      Some [Some 300, Some 50]"
    by (simp add: ev)
  have e2: "usedCoverage_after [repair100, inspect0, repair200] three_claims_db =
      Some [Some 300, Some 50]"
    by (simp add: ev)
  have e3: "usedCoverage_after [repair200, repair100, inspect0] three_claims_db =
      Some [Some 300, Some 50]"
    by (simp add: ev)
  have e4: "usedCoverage_after [repair200, inspect0, repair100] three_claims_db =
      Some [Some 300, Some 50]"
    by (simp add: ev)
  have e5: "usedCoverage_after [inspect0, repair100, repair200] three_claims_db =
      Some [Some 300, Some 50]"
    by (simp add: ev)
  have e6: "usedCoverage_after [inspect0, repair200, repair100] three_claims_db =
      Some [Some 300, Some 50]"
    by (simp add: ev)
  show ?thesis using general e1 e2 e3 e4 e5 e6 by blast
qed

theorem reconcile_usedCoverage_witness:
  "map totalCost (claims three_claims_db) = [Some 0, Some 50, Some 0, Some 0] \<and>
   map warrantyId (claims three_claims_db) = [Some 1, Some 2, Some 1, Some 1] \<and>
   find_warranty
     (warranties (snd (add_update 2000 1 (cost_request 100 [''receipt1.jpg'']) three_claims_db))) 1 =
     Some (example_warranty\<lparr>usedCoverage := Some 100\<rparr>)"
proof -
  let ?r = "add_update 2000 1 (cost_request 100 [''receipt1.jpg'']) three_claims_db"
  note ev = three_claims_db_def example_claim_def cost_request_def add_update_def
    find_claim_def save_claim_def valid_claim_def
    valid_enum_def or_zero_def num_add_def Let_def
  have "\<exists>c. ?r = (Http200 c, snd ?r) \<and> warrantyId c = Some 1"
    by (simp add: ev prod_eq_iff)
  then obtain c where c: "?r = (Http200 c, snd ?r)" and w: "warrantyId c = Some 1"
    by (elim exE conjE)
  have x: "find_warranty (warranties three_claims_db) 1 = Some example_warranty"
    by (simp add: three_claims_db_def find_warranty_def example_warranty_def)
  have t: "foldl num_add 0
      (map (\<lambda>d. or_zero (totalCost d))
         (filter (\<lambda>d. warrantyId d = Some 1) (claims (snd ?r)))) = 100"
    by (simp add: ev)
  have before: "map totalCost (claims three_claims_db) = [Some 0, Some 50, Some 0, Some 0]"
    "map warrantyId (claims three_claims_db) = [Some 1, Some 2, Some 1, Some 1]"
    by (simp_all add: three_claims_db_def example_claim_def)
  from reconcile_usedCoverage [of 2000 1 "cost_request 100 [''receipt1.jpg'']" three_claims_db c
      "snd ?r" 1 example_warranty] c w x
  have "find_warranty (warranties (snd ?r)) 1 =
      Some (example_warranty\<lparr>usedCoverage :=
        Some (foldl num_add 0
          (map (\<lambda>d. or_zero (totalCost d))
             (filter (\<lambda>d. warrantyId d = Some 1) (claims (snd ?r)))))\<rparr>)"
    by blast
  then show ?thesis using before by (simp only: t)
qed

lemma gen_claimId_fresh:
  "\<not> list_ex (\<lambda>c. claimId c = draw k) cs \<Longrightarrow> gen_claimId draw cs k = Some (draw k)"
  by (subst gen_claimId.simps) simp

lemma create_claim_Http201:
  assumes "create_claim draw oid now req s = Some (Http201 c, s')"
  shows "cid c = oid \<and> warrantyId c = r_warrantyId req \<and> status c = AwaitingIntake \<and>
         totalCost c = Some 0 \<and> updates c = [] \<and>
         \<not> list_ex (\<lambda>d. cid d = oid) (claims s) \<and>
         claims s' = claims s @ [c] \<and>
         warranties s' =
           update_warranty (r_warrantyId req) (\<lambda>w. w\<lparr>claimStatus := ClaimPending\<rparr>) (warranties s)"
  using assms
  by (auto simp add: create_claim_def Let_def split: option.splits if_splits)

lemma complete_claim_Http200:
  assumes "complete_claim now i req s = (Http200 c, s')"
  obtains c0 where "find_claim (claims s) i = Some c0"
    and "status c = DeviceReceived" and "pickupDate c = Some now"
    and "\<exists>u. updates c = updates c0 @ [u] \<and> cost u = 0 \<and> date u = Some now \<and>
           step u = length (updates c0) + 2 \<and> title u \<in> range ClosePickup \<union> {CloseDelivery, CloseOnly}"
    and "totalCost c = totalCost c0" and "cid c = i" and "warrantyId c = warrantyId c0"
    and "claims s' = save_claim c (claims s)"
    and "warranties s' =
           update_warranty (warrantyId c) (\<lambda>w. w\<lparr>claimStatus := ClaimNormal\<rparr>) (warranties s)"
  using assms
  by (auto simp add: complete_claim_def Let_def find_claim_cid split: option.splits if_splits)

text \<open>
  C6. A claim intake that is stored sets the \<open>claimStatus\<close> of the owning warranty to
  pending. Completing a claim sets its status to device received, stamps \<open>pickupDate\<close> with
  the time of the request, appends one closing update of cost 0, and sets the
  \<open>claimStatus\<close> of the owning warranty back to normal.
\<close>

theorem claim_lifecycle:
  "(create_claim draw oid now req s = Some (Http201 c, s') \<and> r_warrantyId req = Some w \<and>
      find_warranty (warranties s) w = Some x \<longrightarrow>
      find_claim (claims s') oid = Some c \<and> status c = AwaitingIntake \<and>
      warrantyId c = Some w \<and>
      find_warranty (warranties s') w = Some (x\<lparr>claimStatus := ClaimPending\<rparr>)) \<and>
   (complete_claim later i fin t = (Http200 c', t') \<and> find_claim (claims t) i = Some c0 \<and>
      warrantyId c0 = Some v \<and> find_warranty (warranties t) v = Some y \<longrightarrow>
      status c' = DeviceReceived \<and> pickupDate c' = Some later \<and>
      (\<exists>u. updates c' = updates c0 @ [u] \<and> cost u = 0 \<and> date u = Some later \<and>
         step u = length (updates c0) + 2 \<and>
         title u \<in> range ClosePickup \<union> {CloseDelivery, CloseOnly}) \<and>
      find_claim (claims t') i = Some c' \<and>
      find_warranty (warranties t') v = Some (y\<lparr>claimStatus := ClaimNormal\<rparr>))"
proof -
  have intake: "find_claim (claims s') oid = Some c \<and> status c = AwaitingIntake \<and>
      warrantyId c = Some w \<and>
      find_warranty (warranties s') w = Some (x\<lparr>claimStatus := ClaimPending\<rparr>)"
    if ok: "create_claim draw oid now req s = Some (Http201 c, s')"
      and w: "r_warrantyId req = Some w" and x: "find_warranty (warranties s) w = Some x"
  proof -
    note f = create_claim_Http201 [OF ok]
    have "\<not> list_ex (\<lambda>d. cid d = cid c) (claims s)" using f by simp
    then have "find_claim (claims s @ [c]) (cid c) = Some c" by (rule find_claim_append_new)
    then have a: "find_claim (claims s') oid = Some c" using f by simp
    have "wid x = w" using x by (rule find_warranty_wid)
    then have b: "find_warranty (warranties s') w = Some (x\<lparr>claimStatus := ClaimPending\<rparr>)"
      using f by (simp add: w find_warranty_update x)
    show ?thesis using a b f w by simp
  qed
  have complete: "status c' = DeviceReceived \<and> pickupDate c' = Some later \<and>
      (\<exists>u. updates c' = updates c0 @ [u] \<and> cost u = 0 \<and> date u = Some later \<and>
         step u = length (updates c0) + 2 \<and>
         title u \<in> range ClosePickup \<union> {CloseDelivery, CloseOnly}) \<and>
      find_claim (claims t') i = Some c' \<and>
      find_warranty (warranties t') v = Some (y\<lparr>claimStatus := ClaimNormal\<rparr>)"
    if ok: "complete_claim later i fin t = (Http200 c', t')"
      and c0: "find_claim (claims t) i = Some c0" and v: "warrantyId c0 = Some v"
      and y: "find_warranty (warranties t) v = Some y"
  proof -
    from ok obtain d where d: "find_claim (claims t) i = Some d"
      and st: "status c' = DeviceReceived" "pickupDate c' = Some later"
      and up: "\<exists>u. updates c' = updates d @ [u] \<and> cost u = 0 \<and> date u = Some later \<and>
           step u = length (updates d) + 2 \<and> title u \<in> range ClosePickup \<union> {CloseDelivery, CloseOnly}"
      and id: "cid c' = i" "warrantyId c' = warrantyId d"
      and cl: "claims t' = save_claim c' (claims t)"
      and wa: "warranties t' =
           update_warranty (warrantyId c') (\<lambda>w. w\<lparr>claimStatus := ClaimNormal\<rparr>) (warranties t)"
      by (rule complete_claim_Http200)
    have dc: "d = c0" using d c0 by simp
    have "cid c0 = i" using c0 by (rule find_claim_cid)
    then have a: "find_claim (claims t') i = Some c'"
      by (simp add: cl find_claim_save c0 id)
    have "wid y = v" using y by (rule find_warranty_wid)
    then have b: "find_warranty (warranties t') v = Some (y\<lparr>claimStatus := ClaimNormal\<rparr>)"
      by (simp add: wa id dc v find_warranty_update y)
    show ?thesis using st up a b by (simp add: dc)
  qed
  show ?thesis using intake complete by blast
qed

theorem claim_lifecycle_witness:
  "create_claim (\<lambda>k. 100001) 1 1000 example_intake intake_db =
     Some (Http201 example_claim, pending_db) \<and>
   find_warranty (warranties pending_db) 1 = Some (example_warranty\<lparr>claimStatus := ClaimPending\<rparr>) \<and>
   (\<exists>c. complete_claim 5000 1 example_completion pending_db =
          (Http200 c, snd (complete_claim 5000 1 example_completion pending_db)) \<and>
        status c = DeviceReceived \<and> pickupDate c = Some 5000 \<and> length (updates c) = 1) \<and>
   find_warranty (warranties (snd (complete_claim 5000 1 example_completion pending_db))) 1 =
     Some (example_warranty\<lparr>claimStatus := ClaimNormal\<rparr>)"
proof -
  let ?r = "complete_claim 5000 1 example_completion pending_db"
  have g: "gen_claimId (\<lambda>k. 100001) [] 0 = Some 100001"
    by (rule gen_claimId_fresh [of "\<lambda>k. 100001" 0 "[]"]) simp
  have a: "create_claim (\<lambda>k. 100001) 1 1000 example_intake intake_db =
      Some (Http201 example_claim, pending_db)"
    by (simp add: create_claim_def intake_db_def pending_db_def example_claim_def
        example_intake_def g valid_claim_def valid_enum_def update_warranty_def
        example_warranty_def Let_def)
  have b: "r_warrantyId example_intake = Some 1" by (simp add: example_intake_def)
  have x: "find_warranty (warranties intake_db) 1 = Some example_warranty"
    by (simp add: intake_db_def find_warranty_def example_warranty_def)
  have "\<exists>c. ?r = (Http200 c, snd ?r)"
    by (simp add: complete_claim_def pending_db_def example_claim_def example_completion_def
        find_claim_def valid_claim_def valid_enum_def Let_def prod_eq_iff)
  then obtain c where c: "?r = (Http200 c, snd ?r)" by blast
  have d: "find_claim (claims pending_db) 1 = Some example_claim"
    by (simp add: pending_db_def find_claim_def example_claim_def)
  have e: "warrantyId example_claim = Some 1" and u: "updates example_claim = []"
    by (simp_all add: example_claim_def)
  have y: "find_warranty (warranties pending_db) 1 =
      Some (example_warranty\<lparr>claimStatus := ClaimPending\<rparr>)"
    by (simp add: pending_db_def find_warranty_def example_warranty_def)
  from claim_lifecycle [of "\<lambda>k. 100001" 1 1000 example_intake intake_db example_claim
      pending_db 1 example_warranty 5000 1 example_completion pending_db c "snd ?r"
      example_claim 1 "example_warranty\<lparr>claimStatus := ClaimPending\<rparr>"] a b x c d e y
  have "find_warranty (warranties pending_db) 1 =
        Some (example_warranty\<lparr>claimStatus := ClaimPending\<rparr>) \<and>
      status c = DeviceReceived \<and> pickupDate c = Some 5000 \<and>
      (\<exists>u. updates c = updates example_claim @ [u]) \<and>
      find_warranty (warranties (snd ?r)) 1 =
        Some (example_warranty\<lparr>claimStatus := ClaimPending, claimStatus := ClaimNormal\<rparr>)"
    by blast
  then show ?thesis using a c by (auto simp add: u)
qed

section \<open>Overdue claims\<close>

lemma MS_PER_DAY_value: "MS_PER_DAY = 86400000"
  by (simp add: MS_PER_DAY_def num_mul_def)

lemma days_lower:
  assumes "0 \<le> n" and "n * 86400000 \<le> 2 ^ 53" and "n * 86400000 \<le> now - t"
  shows "n \<le> \<lfloor>num_div (num_sub (of_int now) (of_int t)) MS_PER_DAY\<rfloor>"
proof -
  have n: "\<bar>n\<bar> \<le> 2 ^ 53" and m: "\<bar>n * 86400000\<bar> \<le> 2 ^ 53"
    using assms(1,2) by simp_all
  have "(of_int (n * 86400000) :: rat) \<le> of_int (now - t)"
    using assms(3) by (simp only: of_int_le_iff)
  then have "binary64 (of_int (n * 86400000)) \<le> binary64 (of_int (now - t))"
    by (rule binary64_mono)
  then have "of_int (n * 86400000) \<le> num_sub (of_int now) (of_int t)"
    by (simp only: binary64_of_int [OF m] num_sub_def of_int_diff)
  then have "of_int n \<le> num_sub (of_int now) (of_int t) / 86400000"
    by (simp add: pos_le_divide_eq)
  then have "binary64 (of_int n) \<le> num_div (num_sub (of_int now) (of_int t)) MS_PER_DAY"
    unfolding num_div_def MS_PER_DAY_value by (rule binary64_mono)
  then show ?thesis by (simp only: binary64_of_int [OF n] le_floor_iff)
qed

lemma days_upper:
  assumes "now - t < n * 86400000" and "\<bar>n * 86400000 - 1\<bar> \<le> 2 ^ 53"
    and "binary64 (of_int (n * 86400000 - 1) / 86400000) < of_int n"
  shows "\<lfloor>num_div (num_sub (of_int now) (of_int t)) MS_PER_DAY\<rfloor> < n"
proof -
  have "(of_int (now - t) :: rat) \<le> of_int (n * 86400000 - 1)"
    using assms(1) by (simp only: of_int_le_iff)
  then have "binary64 (of_int (now - t)) \<le> binary64 (of_int (n * 86400000 - 1))"
    by (rule binary64_mono)
  then have "binary64 (of_int (now - t)) \<le> of_int (n * 86400000 - 1)"
    by (simp only: binary64_of_int [OF assms(2)])
  then have "num_sub (of_int now) (of_int t) \<le> of_int (n * 86400000 - 1)"
    by (simp add: num_sub_def)
  then have "num_sub (of_int now) (of_int t) / 86400000 \<le> of_int (n * 86400000 - 1) / 86400000"
    by (simp add: divide_right_mono)
  then have "num_div (num_sub (of_int now) (of_int t)) MS_PER_DAY
      \<le> binary64 (of_int (n * 86400000 - 1) / 86400000)"
    unfolding num_div_def MS_PER_DAY_value by (rule binary64_mono)
  then have "num_div (num_sub (of_int now) (of_int t)) MS_PER_DAY < of_int n"
    using assms(3) by simp
  then show ?thesis by (simp only: floor_less_iff)
qed

lemma below_5: "binary64 (431999999 / 86400000) < 5"
  using binary64_eqI [of "431999999 / 86400000" 50 0]
  by (simp add: round_half_even_def Let_def min_exp_def floor_rat_numeral)

lemma below_7: "binary64 (604799999 / 86400000) < 7"
  using binary64_eqI [of "604799999 / 86400000" 50 0]
  by (simp add: round_half_even_def Let_def min_exp_def floor_rat_numeral)

lemma days_ge_5_iff:
  "5 \<le> \<lfloor>num_div (num_sub (of_int now) (of_int t)) MS_PER_DAY\<rfloor> \<longleftrightarrow> 432000000 \<le> now - t"
proof
  assume "5 \<le> \<lfloor>num_div (num_sub (of_int now) (of_int t)) MS_PER_DAY\<rfloor>"
  then have "\<not> \<lfloor>num_div (num_sub (of_int now) (of_int t)) MS_PER_DAY\<rfloor> < 5" by simp
  then have "\<not> now - t < 5 * 86400000"
    using days_upper [of now t 5] below_5 by auto
  then show "432000000 \<le> now - t" by simp
next
  assume "432000000 \<le> now - t"
  then show "5 \<le> \<lfloor>num_div (num_sub (of_int now) (of_int t)) MS_PER_DAY\<rfloor>"
    using days_lower [of 5 now t] by simp
qed

lemma days_eq_6:
  assumes "518400000 \<le> now - t" and "now - t < 604800000"
  shows "\<lfloor>num_div (num_sub (of_int now) (of_int t)) MS_PER_DAY\<rfloor> = 6"
proof -
  have "6 \<le> \<lfloor>num_div (num_sub (of_int now) (of_int t)) MS_PER_DAY\<rfloor>"
    using days_lower [of 6 now t] assms(1) by simp
  moreover have "\<lfloor>num_div (num_sub (of_int now) (of_int t)) MS_PER_DAY\<rfloor> < 7"
    using days_upper [of now t 7] below_7 assms(2) by simp
  ultimately show ?thesis by linarith
qed

lemma set_pending_claims:
  "set (pending_claims matches now s) =
     enrich now ` {c \<in> set (claims s). status c = AwaitingIntake \<and> matches c}"
  by (auto simp add: pending_claims_def)

text \<open>
  C7. The pending-claims query returns the stored claims that are still awaiting intake
  (and match the search conditions of the request), each with its overdue mark. The time of
  the last activity is the date of the most recent update, or the intake time of a claim
  with no update. A claim is marked overdue exactly when the whole days elapsed since then,
  the floor of the elapsed time in days, are 5 or more; with 6 whole days elapsed it is
  overdue with \<open>daysOverdue = 6\<close>, and with 4 it is not overdue and \<open>daysOverdue\<close> is 0.
\<close>

theorem overdue_policy:
  "(set (pending_claims matches now s) =
      enrich now ` {c \<in> set (claims s). status c = AwaitingIntake \<and> matches c}) \<and>
   fst (enrich now c) = c \<and>
   (updates c \<noteq> [] \<and> date (last (updates c)) = Some d \<longrightarrow> lastUpdateTime c = Some d) \<and>
   (updates c = [] \<longrightarrow>
      lastUpdateTime c = (case claimDate c of Some d \<Rightarrow> Some d | None \<Rightarrow> createdAt c)) \<and>
   (lastUpdateTime c = Some t \<longrightarrow>
      (isOverdue (snd (enrich now c)) \<longleftrightarrow> 5 \<le> \<lfloor>(of_int (now - t) :: rat) / 86400000\<rfloor>) \<and>
      (6 * 86400000 \<le> now - t \<and> now - t < 7 * 86400000 \<longrightarrow>
         isOverdue (snd (enrich now c)) \<and> daysOverdue (snd (enrich now c)) = 6) \<and>
      (4 * 86400000 \<le> now - t \<and> now - t < 5 * 86400000 \<longrightarrow>
         \<not> isOverdue (snd (enrich now c)) \<and> daysOverdue (snd (enrich now c)) = 0))"
proof -
  have a: "fst (enrich now c) = c" by (simp add: enrich_def Let_def)
  have b: "updates c \<noteq> [] \<and> date (last (updates c)) = Some d \<longrightarrow> lastUpdateTime c = Some d"
    by (simp add: lastUpdateTime_def Let_def)
  have e: "updates c = [] \<longrightarrow>
      lastUpdateTime c = (case claimDate c of Some d \<Rightarrow> Some d | None \<Rightarrow> createdAt c)"
    by (simp add: lastUpdateTime_def Let_def)
  have f: "(isOverdue (snd (enrich now c)) \<longleftrightarrow> 5 \<le> \<lfloor>(of_int (now - t) :: rat) / 86400000\<rfloor>) \<and>
      (6 * 86400000 \<le> now - t \<and> now - t < 7 * 86400000 \<longrightarrow>
         isOverdue (snd (enrich now c)) \<and> daysOverdue (snd (enrich now c)) = 6) \<and>
      (4 * 86400000 \<le> now - t \<and> now - t < 5 * 86400000 \<longrightarrow>
         \<not> isOverdue (snd (enrich now c)) \<and> daysOverdue (snd (enrich now c)) = 0)"
    if t: "lastUpdateTime c = Some t"
  proof -
    have days: "daysSinceUpdate now c = \<lfloor>num_div (num_sub (of_int now) (of_int t)) MS_PER_DAY\<rfloor>"
      by (simp add: daysSinceUpdate_def t)
    have over: "isOverdue (snd (enrich now c)) \<longleftrightarrow> 5 \<le> daysSinceUpdate now c"
      and count: "daysOverdue (snd (enrich now c)) =
        (if 5 \<le> daysSinceUpdate now c then daysSinceUpdate now c else 0)"
      by (simp_all add: enrich_def Let_def)
    have late: "isOverdue (snd (enrich now c)) \<longleftrightarrow> 432000000 \<le> now - t"
      by (simp only: over days days_ge_5_iff)
    have "(5 \<le> \<lfloor>(of_int (now - t) :: rat) / 86400000\<rfloor>) \<longleftrightarrow> 432000000 \<le> now - t"
    proof -
      have "(5 \<le> \<lfloor>(of_int (now - t) :: rat) / 86400000\<rfloor>) \<longleftrightarrow>
          (of_int (5 * 86400000) :: rat) \<le> of_int (now - t)"
        by (simp add: le_floor_iff pos_le_divide_eq)
      then show ?thesis by (simp only: of_int_le_iff) simp
    qed
    then have i: "isOverdue (snd (enrich now c)) \<longleftrightarrow> 5 \<le> \<lfloor>(of_int (now - t) :: rat) / 86400000\<rfloor>"
      using late by simp
    have ii: "isOverdue (snd (enrich now c)) \<and> daysOverdue (snd (enrich now c)) = 6"
      if "6 * 86400000 \<le> now - t" "now - t < 7 * 86400000"
      using that days_eq_6 [of now t] by (simp add: over count days del: le_floor_iff)
    have iii: "\<not> isOverdue (snd (enrich now c)) \<and> daysOverdue (snd (enrich now c)) = 0"
      if "now - t < 5 * 86400000"
      using that late by (simp add: count flip: over)
    show ?thesis using i ii iii by blast
  qed
  show ?thesis using set_pending_claims a b e f by blast
qed

theorem overdue_policy_witness:
  "lastUpdateTime stale_claim = Some 86400000 \<and>
   enrich (7 * 86400000) stale_claim = (stale_claim, \<lparr>isOverdue = True, daysOverdue = 6\<rparr>) \<and>
   enrich (5 * 86400000) stale_claim = (stale_claim, \<lparr>isOverdue = False, daysOverdue = 0\<rparr>)"
proof -
  have u: "updates stale_claim \<noteq> [] \<and> date (last (updates stale_claim)) = Some 86400000"
    by (simp add: stale_claim_def)
  from overdue_policy [of "\<lambda>c. True" "7 * 86400000" example_db stale_claim 86400000 86400000] u
  have six: "lastUpdateTime stale_claim = Some 86400000 \<and>
      fst (enrich (7 * 86400000) stale_claim) = stale_claim \<and>
      isOverdue (snd (enrich (7 * 86400000) stale_claim)) \<and>
      daysOverdue (snd (enrich (7 * 86400000) stale_claim)) = 6"
    by simp
  from overdue_policy [of "\<lambda>c. True" "5 * 86400000" example_db stale_claim 86400000 86400000] u
  have four: "fst (enrich (5 * 86400000) stale_claim) = stale_claim \<and>
      \<not> isOverdue (snd (enrich (5 * 86400000) stale_claim)) \<and>
      daysOverdue (snd (enrich (5 * 86400000) stale_claim)) = 0"
    by simp
  show ?thesis using six four by (auto simp add: prod_eq_iff)
qed

section \<open>The cost ledger of a claim\<close>

lemma sum_cost_Nil [simp]: "sum_cost [] = 0"
  by (simp add: sum_cost_def)

lemma sum_cost_snoc [simp]: "sum_cost (us @ [u]) = num_add (sum_cost us) (cost u)"
  by (simp add: sum_cost_def)

lemma is_binary64_sum_cost: "is_binary64 (sum_cost us)"
proof (cases us rule: rev_cases)
  case Nil
  then show ?thesis using is_binary64_of_int [of 0] by simp
next
  case (snoc xs x)
  then show ?thesis by (simp add: num_add_def is_binary64_binary64)
qed

lemma num_add_zero: "is_binary64 a \<Longrightarrow> num_add a 0 = a"
  by (simp add: num_add_def binary64_exact)

lemma num_add_nonneg:
  assumes "is_binary64 a" and "0 \<le> b"
  shows "a \<le> num_add a b"
proof -
  have "binary64 a \<le> binary64 (a + b)" using assms(2) by (intro binary64_mono) simp
  then show ?thesis using assms(1) by (simp add: num_add_def binary64_exact)
qed

lemma create_claim_cases:
  assumes "create_claim draw oid now req s = Some (r, s')"
  shows "claims s' = claims s \<or>
         (\<exists>c. claims s' = claims s @ [c] \<and> totalCost c = Some 0 \<and> updates c = [] \<and> cid c = oid \<and>
              \<not> list_ex (\<lambda>d. cid d = oid) (claims s))"
  using assms
  by (auto simp add: create_claim_def Let_def split: option.splits if_splits)

lemma add_update_unchanged:
  "\<forall>c. fst (add_update now i req s) \<noteq> Http200 c \<Longrightarrow> snd (add_update now i req s) = s"
  by (auto simp add: add_update_def Let_def split: option.splits if_splits)

lemma complete_claim_unchanged:
  "\<forall>c. fst (complete_claim now i req s) \<noteq> Http200 c \<Longrightarrow> snd (complete_claim now i req s) = s"
  by (auto simp add: complete_claim_def Let_def split: option.splits if_splits)

lemma find_claim_in_set: "find_claim cs i = Some c \<Longrightarrow> c \<in> set cs"
  unfolding find_claim_def by (auto simp add: find_Some_iff)

lemma set_save_claim: "set (save_claim c cs) \<subseteq> insert c (set cs)"
  by (auto simp add: save_claim_def)

lemma perform_invariant:
  assumes "perform now x s = Some s'" and "\<forall>c\<in>set (claims s). cost_invariant c"
  shows "\<forall>c\<in>set (claims s'). cost_invariant c"
proof (cases x)
  case (Intake draw oid req)
  then obtain r where "create_claim draw oid now req s = Some (r, s')"
    using assms(1) by auto
  from create_claim_cases [OF this] show ?thesis
    using assms(2) by (auto simp add: cost_invariant_def or_zero_def)
next
  case (AddUpdate i req)
  then have s': "s' = snd (add_update now i req s)" using assms(1) by simp
  show ?thesis
  proof (cases "\<exists>c. fst (add_update now i req s) = Http200 c")
    case False
    then have "s' = s" using add_update_unchanged [of now i req s] s' by simp
    then show ?thesis using assms(2) by simp
  next
    case True
    then obtain c where "add_update now i req s = (Http200 c, s')"
      using s' by (auto simp add: prod_eq_iff)
    then obtain c0 where c0: "find_claim (claims s) i = Some c0"
      and up: "updates c = updates c0 @
           [\<lparr>step = length (updates c0) + 2,
             title = Title (case q_title req of None \<Rightarrow> '''' | Some t \<Rightarrow> t),
             date = Some now, cost = or_zero (q_cost req), images = q_images req,
             evidenceImages = q_evidenceImages req\<rparr>]"
      and tc: "totalCost c = Some (num_add (or_zero (totalCost c0)) (or_zero (q_cost req)))"
      and st: "s' = sync_usedCoverage c (s\<lparr>claims := save_claim c (claims s)\<rparr>)"
      by (rule add_update_Http200)
    have "cost_invariant c0" using assms(2) find_claim_in_set [OF c0] by simp
    then have "cost_invariant c" by (simp add: cost_invariant_def tc up or_zero_def)
    then show ?thesis using assms(2) set_save_claim [of c "claims s"] by (auto simp add: st)
  qed
next
  case (Complete i req)
  then have s': "s' = snd (complete_claim now i req s)" using assms(1) by simp
  show ?thesis
  proof (cases "\<exists>c. fst (complete_claim now i req s) = Http200 c")
    case False
    then have "s' = s" using complete_claim_unchanged [of now i req s] s' by simp
    then show ?thesis using assms(2) by simp
  next
    case True
    then obtain c where "complete_claim now i req s = (Http200 c, s')"
      using s' by (auto simp add: prod_eq_iff)
    then obtain c0 where c0: "find_claim (claims s) i = Some c0"
      and up: "\<exists>u. updates c = updates c0 @ [u] \<and> cost u = 0 \<and> date u = Some now \<and>
           step u = length (updates c0) + 2 \<and> title u \<in> range ClosePickup \<union> {CloseDelivery, CloseOnly}"
      and tc: "totalCost c = totalCost c0"
      and cl: "claims s' = save_claim c (claims s)"
      by (rule complete_claim_Http200)
    from up obtain u where u: "updates c = updates c0 @ [u]" "cost u = 0" by blast
    have inv: "cost_invariant c0" using assms(2) find_claim_in_set [OF c0] by simp
    then have "or_zero (totalCost c0) = sum_cost (updates c0)" by (simp add: cost_invariant_def)
    moreover have "num_add (sum_cost (updates c0)) 0 = sum_cost (updates c0)"
      by (rule num_add_zero) (rule is_binary64_sum_cost)
    ultimately have "cost_invariant c" by (simp add: cost_invariant_def tc u)
    then show ?thesis using assms(2) cl set_save_claim [of c "claims s"] by auto
  qed
qed

lemma run_invariant:
  assumes "run ops s = Some s'" and "\<forall>c\<in>set (claims s). cost_invariant c"
  shows "\<forall>c\<in>set (claims s'). cost_invariant c"
  using assms
proof (induction ops arbitrary: s)
  case Nil
  then show ?case by simp
next
  case (Cons x xs)
  obtain now y where x: "x = (now, y)" by (cases x)
  from Cons.prems(1) obtain s1 where p: "perform now y s = Some s1" and r: "run xs s1 = Some s'"
    by (auto simp add: x split: option.splits)
  have "\<forall>c\<in>set (claims s1). cost_invariant c"
    using p Cons.prems(2) by (rule perform_invariant)
  with r show ?case by (rule Cons.IH)
qed

lemma find_claim_append:
  "find_claim (cs @ [c]) j =
     (case find_claim cs j of Some d \<Rightarrow> Some d | None \<Rightarrow> if cid c = j then Some c else None)"
  by (induction cs) (auto simp add: find_claim_def)

lemma perform_total_mono:
  assumes "perform now x s = Some s'" and "\<forall>c\<in>set (claims s). cost_invariant c"
    and "0 \<le> operation_cost x"
  shows "claim_total s j \<le> claim_total s' j"
proof (cases x)
  case (Intake draw oid req)
  then obtain r where "create_claim draw oid now req s = Some (r, s')"
    using assms(1) by auto
  from create_claim_cases [OF this] show ?thesis
    by (auto simp add: claim_total_def find_claim_append or_zero_def
        split: option.splits if_splits)
next
  case (AddUpdate i req)
  then have s': "s' = snd (add_update now i req s)" using assms(1) by simp
  show ?thesis
  proof (cases "\<exists>c. fst (add_update now i req s) = Http200 c")
    case False
    then have "s' = s" using add_update_unchanged [of now i req s] s' by simp
    then show ?thesis by simp
  next
    case True
    then obtain c where "add_update now i req s = (Http200 c, s')"
      using s' by (auto simp add: prod_eq_iff)
    then obtain c0 where c0: "find_claim (claims s) i = Some c0"
      and tc: "totalCost c = Some (num_add (or_zero (totalCost c0)) (or_zero (q_cost req)))"
      and id: "cid c = i"
      and st: "s' = sync_usedCoverage c (s\<lparr>claims := save_claim c (claims s)\<rparr>)"
      by (rule add_update_Http200)
    have "cost_invariant c0" using assms(2) find_claim_in_set [OF c0] by simp
    then have "is_binary64 (or_zero (totalCost c0))"
      by (simp add: cost_invariant_def is_binary64_sum_cost)
    moreover have "0 \<le> or_zero (q_cost req)" using assms(3) AddUpdate by simp
    ultimately have grow: "or_zero (totalCost c0) \<le> or_zero (totalCost c)"
      by (simp add: tc or_zero_def num_add_nonneg)
    show ?thesis
    proof (cases "find_claim (claims s) j")
      case None
      then show ?thesis by (simp add: claim_total_def st find_claim_save)
    next
      case (Some d)
      then have "cid d = j" by (rule find_claim_cid)
      then show ?thesis
        using Some c0 grow by (auto simp add: claim_total_def st find_claim_save id)
    qed
  qed
next
  case (Complete i req)
  then have s': "s' = snd (complete_claim now i req s)" using assms(1) by simp
  show ?thesis
  proof (cases "\<exists>c. fst (complete_claim now i req s) = Http200 c")
    case False
    then have "s' = s" using complete_claim_unchanged [of now i req s] s' by simp
    then show ?thesis by simp
  next
    case True
    then obtain c where "complete_claim now i req s = (Http200 c, s')"
      using s' by (auto simp add: prod_eq_iff)
    then obtain c0 where c0: "find_claim (claims s) i = Some c0"
      and tc: "totalCost c = totalCost c0" and id: "cid c = i"
      and cl: "claims s' = save_claim c (claims s)"
      by (rule complete_claim_Http200)
    show ?thesis
    proof (cases "find_claim (claims s) j")
      case None
      then show ?thesis by (simp add: claim_total_def cl find_claim_save)
    next
      case (Some d)
      then have "cid d = j" by (rule find_claim_cid)
      then show ?thesis
        using Some c0 tc by (auto simp add: claim_total_def cl find_claim_save id)
    qed
  qed
qed

lemma run_total_mono:
  assumes "run ops s = Some s'" and "\<forall>c\<in>set (claims s). cost_invariant c"
    and "\<forall>x\<in>set ops. 0 \<le> operation_cost (snd x)"
  shows "claim_total s j \<le> claim_total s' j"
  using assms
proof (induction ops arbitrary: s)
  case Nil
  then show ?case by simp
next
  case (Cons x xs)
  obtain now y where x: "x = (now, y)" by (cases x)
  from Cons.prems(1) obtain s1 where p: "perform now y s = Some s1" and r: "run xs s1 = Some s'"
    by (auto simp add: x split: option.splits)
  have inv: "\<forall>c\<in>set (claims s1). cost_invariant c"
    using p Cons.prems(2) by (rule perform_invariant)
  have "0 \<le> operation_cost y" using Cons.prems(3) x by simp
  with p Cons.prems(2) have "claim_total s j \<le> claim_total s1 j" by (rule perform_total_mono)
  moreover have "claim_total s1 j \<le> claim_total s' j"
    using r inv Cons.prems(3) by (intro Cons.IH) simp_all
  ultimately show ?case by simp
qed

text \<open>
  C4 as stated fails in its last part: a progress update with a negative cost needs no
  evidence, is stored, and lowers \<open>totalCost\<close>.
\<close>

theorem negative_cost_lowers_total:
  "fst (add_update 2000 1 refund_request example_db) \<noteq> Http400 \<and>
   claim_total example_db 1 = 0 \<and>
   claim_total (snd (add_update 2000 1 refund_request example_db)) 1 = - 5"
  by (simp add: add_update_def refund_request_def example_db_def example_claim_def
      claim_total_def find_claim_def save_claim_def sync_usedCoverage_def valid_claim_def
      valid_enum_def or_zero_def num_add_def binary64_minus Let_def)

text \<open>
  C4, amended. Along every run of intakes, progress updates and completions, each claim
  keeps \<open>totalCost\<close> equal to the sum of the costs of its updates: a claim created by an
  intake has it, and every operation preserves it. Along a run in which no progress update
  has a negative cost, the \<open>totalCost\<close> of a claim never decreases.
\<close>

theorem cost_ledger:
  "(run ops \<lparr>warranties = ws, claims = []\<rparr> = Some s' \<longrightarrow>
      (\<forall>c\<in>set (claims s'). cost_invariant c)) \<and>
   (run ops s = Some s' \<and> (\<forall>c\<in>set (claims s). cost_invariant c) \<longrightarrow>
      (\<forall>c\<in>set (claims s'). cost_invariant c)) \<and>
   (run ops s = Some s' \<and> (\<forall>c\<in>set (claims s). cost_invariant c) \<and>
      (\<forall>x\<in>set ops. 0 \<le> operation_cost (snd x)) \<longrightarrow>
      claim_total s i \<le> claim_total s' i)"
proof -
  have a: "\<forall>c\<in>set (claims s'). cost_invariant c"
    if "run ops \<lparr>warranties = ws, claims = []\<rparr> = Some s'"
    using that by (rule run_invariant) simp
  have b: "\<forall>c\<in>set (claims s'). cost_invariant c"
    if "run ops s = Some s'" "\<forall>c\<in>set (claims s). cost_invariant c"
    using that by (rule run_invariant)
  have c: "claim_total s i \<le> claim_total s' i"
    if "run ops s = Some s'" "\<forall>c\<in>set (claims s). cost_invariant c"
      "\<forall>x\<in>set ops. 0 \<le> operation_cost (snd x)"
    using that by (rule run_total_mono)
  show ?thesis using a b c by blast
qed

lemma intake_example:
  "create_claim (\<lambda>k. 100001) 1 1000 example_intake intake_db =
     Some (Http201 example_claim, pending_db)"
proof -
  have g: "gen_claimId (\<lambda>k. 100001) [] 0 = Some 100001"
    by (rule gen_claimId_fresh [of "\<lambda>k. 100001" 0 "[]"]) simp
  show ?thesis
    by (simp add: create_claim_def intake_db_def pending_db_def example_claim_def
        example_intake_def g valid_claim_def valid_enum_def update_warranty_def
        example_warranty_def Let_def)
qed

theorem cost_ledger_witness:
  "\<exists>s'. run ledger_run intake_db = Some s' \<and> list_all cost_invariant (claims s') \<and>
     map totalCost (claims s') = [Some 100] \<and> map (map cost \<circ> updates) (claims s') = [[100, 0]] \<and>
     claim_total intake_db 1 \<le> claim_total s' 1"
proof -
  have "\<exists>s'. run ledger_run intake_db = Some s' \<and> map totalCost (claims s') = [Some 100] \<and>
      map (map cost \<circ> updates) (claims s') = [[100, 0]]"
    by (simp add: ledger_run_def intake_example [unfolded One_nat_def] pending_db_def example_claim_def
        cost_request_def example_completion_def add_update_def complete_claim_def
        find_claim_def save_claim_def sync_usedCoverage_def valid_claim_def valid_enum_def
        or_zero_def num_add_def Let_def)
  then obtain s' where r: "run ledger_run intake_db = Some s'"
    and t: "map totalCost (claims s') = [Some 100]"
    and u: "map (map cost \<circ> updates) (claims s') = [[100, 0]]"
    by (elim exE conjE)
  have r0: "run ledger_run \<lparr>warranties = [example_warranty], claims = []\<rparr> = Some s'"
    using r by (simp add: intake_db_def)
  have e: "\<forall>c\<in>set (claims intake_db). cost_invariant c" by (simp add: intake_db_def)
  have p: "\<forall>x\<in>set ledger_run. 0 \<le> operation_cost (snd x)"
    by (simp add: ledger_run_def cost_request_def or_zero_def)
  from cost_ledger [of ledger_run "[example_warranty]" s' intake_db 1] r r0 e p
  have "(\<forall>c\<in>set (claims s'). cost_invariant c) \<and> claim_total intake_db 1 \<le> claim_total s' 1"
    by simp
  then have "list_all cost_invariant (claims s') \<and> claim_total intake_db 1 \<le> claim_total s' 1"
    by (simp add: list_all_iff)
  then show ?thesis using r t u by (intro exI [of _ s']) simp
qed

end
